theory Spec2Isabelle
  imports Complex_Main "HOL-Library.Word" "HOL-Library.Sublist"
begin

section \<open>The privacy filter of \<^verbatim>\<open>static/js/app.js\<close>\<close>

subsection \<open>The face region\<close>

text \<open>
  \<^verbatim>\<open>applyPrivacyFilter\<close> (lines 133 to 138) computes the region from the canvas
  dimensions \<open>w\<close> and \<open>h\<close>, which are unsigned integers:
  \<^verbatim>\<open>
  const faceRegion = {
      x: Math.floor(w * 0.25),     y: Math.floor(h * 0.05),
      width: Math.floor(w * 0.5),  height: Math.floor(h * 0.45)
  };
  \<close>
  The fields are prefixed with \<open>region_\<close>: a record field named \<open>x\<close> would claim the
  name \<open>x\<close> in every later statement. JavaScript numbers are modelled as exact reals.
  For canvas sizes the floored double product and the floored exact product agree: the
  doubles nearest 0.05 and 0.45 lie above them by less than \<open>2\<^sup>-\<^sup>5\<^sup>5\<close>, the exact products
  \<open>h / 20\<close> and \<open>9 h / 20\<close> are integers or at least \<open>1 / 20\<close> below the next integer, and
  0.25 and 0.5 are powers of two.
\<close>

record FaceRegion =
  region_x :: nat
  region_y :: nat
  region_width :: nat
  region_height :: nat

definition Math_floor :: "real \<Rightarrow> nat" where
  "Math_floor v = nat \<lfloor>v\<rfloor>"

definition faceRegion :: "nat \<Rightarrow> nat \<Rightarrow> FaceRegion" where
  "faceRegion w h =
     \<lparr> region_x = Math_floor (real w * 0.25),
       region_y = Math_floor (real h * 0.05),
       region_width = Math_floor (real w * 0.5),
       region_height = Math_floor (real h * 0.45) \<rparr>"

lemma Math_floor_frac: "Math_floor (real n * (real a / real b)) = (n * a) div b"
proof -
  have "real n * (real a / real b) = real (n * a) / real b"
    by simp
  then show ?thesis
    unfolding Math_floor_def by (simp only: floor_divide_of_nat_eq nat_int)
qed

lemma faceRegion_div:
  "faceRegion w h =
     \<lparr> region_x = w div 4, region_y = h div 20,
       region_width = w div 2, region_height = (h * 9) div 20 \<rparr>"
proof -
  have a: "real w * 0.25 = real w * (real 1 / real 4)" by simp
  have b: "real h * 0.05 = real h * (real 1 / real 20)" by simp
  have c: "real w * 0.5 = real w * (real 1 / real 2)" by simp
  have d: "real h * 0.45 = real h * (real 9 / real 20)" by simp
  show ?thesis
    unfolding faceRegion_def a b c d Math_floor_frac by simp
qed

lemma quarter_half: "(w::nat) div 4 + w div 2 \<le> w"
  by linarith

lemma half_sum: "(h::nat) div 20 + (h * 9) div 20 \<le> h"
  by linarith

text \<open>
  Claim C4. The region computed from frame dimensions \<open>w\<close>, \<open>h\<close> is
  \<open>{x: floor(0.25 w), y: floor(0.05 h), width: floor(0.5 w), height: floor(0.45 h)}\<close>;
  for 640 by 480 it is \<open>{x: 160, y: 24, width: 320, height: 216}\<close>; and for all positive
  \<open>w\<close>, \<open>h\<close> it lies inside the frame: \<open>x + width \<le> w\<close> and \<open>y + height \<le> h\<close>.
\<close>

theorem faceRegion_contained:
  "region_x (faceRegion w h) = nat \<lfloor>0.25 * real w\<rfloor> \<and>
   region_y (faceRegion w h) = nat \<lfloor>0.05 * real h\<rfloor> \<and>
   region_width (faceRegion w h) = nat \<lfloor>0.5 * real w\<rfloor> \<and>
   region_height (faceRegion w h) = nat \<lfloor>0.45 * real h\<rfloor> \<and>
   faceRegion 640 480 =
     \<lparr> region_x = 160, region_y = 24, region_width = 320, region_height = 216 \<rparr> \<and>
   (0 < w \<longrightarrow> 0 < h \<longrightarrow>
      region_x (faceRegion w h) + region_width (faceRegion w h) \<le> w \<and>
      region_y (faceRegion w h) + region_height (faceRegion w h) \<le> h)"
proof -
  have f: "region_x (faceRegion w h) = nat \<lfloor>0.25 * real w\<rfloor> \<and>
      region_y (faceRegion w h) = nat \<lfloor>0.05 * real h\<rfloor> \<and>
      region_width (faceRegion w h) = nat \<lfloor>0.5 * real w\<rfloor> \<and>
      region_height (faceRegion w h) = nat \<lfloor>0.45 * real h\<rfloor>"
    by (simp add: faceRegion_def Math_floor_def mult.commute)
  have e: "faceRegion 640 480 =
      \<lparr> region_x = 160, region_y = 24, region_width = 320, region_height = 216 \<rparr>"
    by (simp add: faceRegion_div)
  have c: "region_x (faceRegion w h) + region_width (faceRegion w h) \<le> w \<and>
      region_y (faceRegion w h) + region_height (faceRegion w h) \<le> h"
    by (simp add: faceRegion_div half_sum quarter_half)
  from f e c show ?thesis by blast
qed

theorem faceRegion_contained_witness:
  "(0::nat) < 641 \<and> (0::nat) < 479 \<and>
   faceRegion 641 479 =
     \<lparr> region_x = 160, region_y = 23, region_width = 320, region_height = 215 \<rparr> \<and>
   region_x (faceRegion 641 479) + region_width (faceRegion 641 479) \<le> 641 \<and>
   region_y (faceRegion 641 479) + region_height (faceRegion 641 479) \<le> 479"
  using faceRegion_contained [of 641 479] by (simp add: faceRegion_div)

subsection \<open>The pixelation loops\<close>

text \<open>
  Lines 148 to 175 of \<^verbatim>\<open>applyPrivacyFilter\<close> work on \<^verbatim>\<open>imageData.data\<close>, a
  \<^verbatim>\<open>Uint8ClampedArray\<close> of \<open>width * height * 4\<close> bytes in row-major RGBA order:
  \<^verbatim>\<open>
  for (let y = 0; y < faceRegion.height; y += pixelSize) {
    for (let x = 0; x < faceRegion.width; x += pixelSize) {
      let r = 0, g = 0, b = 0, count = 0;
      for (let dy = 0; dy < pixelSize && y + dy < faceRegion.height; dy++) {
        for (let dx = 0; dx < pixelSize && x + dx < faceRegion.width; dx++) {
          const idx = ((y + dy) * faceRegion.width + (x + dx)) * 4;
          r += data[idx]; g += data[idx + 1]; b += data[idx + 2]; count++;
        } }
      r = Math.floor(r / count); g = Math.floor(g / count); b = Math.floor(b / count);
      for (let dy = 0; dy < pixelSize && y + dy < faceRegion.height; dy++) {
        for (let dx = 0; dx < pixelSize && x + dx < faceRegion.width; dx++) {
          const idx = ((y + dy) * faceRegion.width + (x + dx)) * 4;
          data[idx] = r; data[idx + 1] = g; data[idx + 2] = b;
        } } } }
  \<close>
  Each loop is one recursive function, innermost first: \<open>sumCols\<close> and \<open>sumRows\<close> are
  the two summing loops, \<open>fillCols\<close> and \<open>fillRows\<close> the two writing loops,
  \<open>pixelateBlock\<close> the body of the \<open>x\<close> loop, \<open>blockCols\<close> the \<open>x\<close> loop and
  \<open>blockRows\<close> the \<open>y\<close> loop. The array is passed along and returned. The sums are
  natural numbers (they stay below \<open>2\<^sup>5\<^sup>3\<close>, so the doubles are exact), \<open>count\<close> is at
  least 1 whenever a block is entered, and a store into the clamped array is \<open>clamp8\<close>.
  The constant \<^verbatim>\<open>this.PIXELATION_SIZE = 16\<close> is set once in the constructor.
  Reads and writes use \<open>!\<close> and list update: \<open>idx_bound\<close> below shows that every index
  the loops touch is inside an array of \<open>width * height * 4\<close> bytes.
\<close>

definition PIXELATION_SIZE :: nat where
  "PIXELATION_SIZE = 16"

definition clamp8 :: "nat \<Rightarrow> 8 word" where
  "clamp8 v = of_nat (min v 255)"

function sumCols ::
  "nat \<Rightarrow> 8 word list \<Rightarrow> nat \<Rightarrow> nat \<Rightarrow> nat \<Rightarrow> nat \<Rightarrow> nat \<times> nat \<times> nat \<times> nat \<Rightarrow> nat \<times> nat \<times> nat \<times> nat"
where
  "sumCols fw data x y dy dx (r, g, b, count) =
     (if dx < PIXELATION_SIZE \<and> x + dx < fw then
        (let idx = ((y + dy) * fw + (x + dx)) * 4 in
         sumCols fw data x y dy (dx + 1)
           (r + unat (data ! idx), g + unat (data ! (idx + 1)), b + unat (data ! (idx + 2)),
            count + 1))
      else (r, g, b, count))"
  by pat_completeness auto
termination
  by (relation "measure (\<lambda>(fw, data, x, y, dy, dx, acc). PIXELATION_SIZE - dx)") auto

function sumRows ::
  "nat \<Rightarrow> nat \<Rightarrow> 8 word list \<Rightarrow> nat \<Rightarrow> nat \<Rightarrow> nat \<Rightarrow> nat \<times> nat \<times> nat \<times> nat \<Rightarrow> nat \<times> nat \<times> nat \<times> nat"
where
  "sumRows fw fh data x y dy acc =
     (if dy < PIXELATION_SIZE \<and> y + dy < fh then
        sumRows fw fh data x y (dy + 1) (sumCols fw data x y dy 0 acc)
      else acc)"
  by pat_completeness auto
termination
  by (relation "measure (\<lambda>(fw, fh, data, x, y, dy, acc). PIXELATION_SIZE - dy)") auto

function fillCols ::
  "nat \<Rightarrow> nat \<Rightarrow> nat \<Rightarrow> nat \<Rightarrow> nat \<Rightarrow> nat \<Rightarrow> nat \<Rightarrow> nat \<Rightarrow> 8 word list \<Rightarrow> 8 word list"
where
  "fillCols fw x y dy dx r g b data =
     (if dx < PIXELATION_SIZE \<and> x + dx < fw then
        (let idx = ((y + dy) * fw + (x + dx)) * 4 in
         fillCols fw x y dy (dx + 1) r g b
           (data[idx := clamp8 r, idx + 1 := clamp8 g, idx + 2 := clamp8 b]))
      else data)"
  by pat_completeness auto
termination
  by (relation "measure (\<lambda>(fw, x, y, dy, dx, r, g, b, data). PIXELATION_SIZE - dx)") auto

function fillRows ::
  "nat \<Rightarrow> nat \<Rightarrow> nat \<Rightarrow> nat \<Rightarrow> nat \<Rightarrow> nat \<Rightarrow> nat \<Rightarrow> nat \<Rightarrow> 8 word list \<Rightarrow> 8 word list"
where
  "fillRows fw fh x y dy r g b data =
     (if dy < PIXELATION_SIZE \<and> y + dy < fh then
        fillRows fw fh x y (dy + 1) r g b (fillCols fw x y dy 0 r g b data)
      else data)"
  by pat_completeness auto
termination
  by (relation "measure (\<lambda>(fw, fh, x, y, dy, r, g, b, data). PIXELATION_SIZE - dy)") auto

definition pixelateBlock :: "nat \<Rightarrow> nat \<Rightarrow> nat \<Rightarrow> nat \<Rightarrow> 8 word list \<Rightarrow> 8 word list" where
  "pixelateBlock fw fh x y data =
     (case sumRows fw fh data x y 0 (0, 0, 0, 0) of
        (r, g, b, count) \<Rightarrow>
          fillRows fw fh x y 0 (r div count) (g div count) (b div count) data)"

function blockCols :: "nat \<Rightarrow> nat \<Rightarrow> nat \<Rightarrow> nat \<Rightarrow> 8 word list \<Rightarrow> 8 word list" where
  "blockCols fw fh y x data =
     (if x < fw then blockCols fw fh y (x + PIXELATION_SIZE) (pixelateBlock fw fh x y data)
      else data)"
  by pat_completeness auto
termination
  by (relation "measure (\<lambda>(fw, fh, y, x, data). fw - x)") (auto simp: PIXELATION_SIZE_def)

function blockRows :: "nat \<Rightarrow> nat \<Rightarrow> nat \<Rightarrow> 8 word list \<Rightarrow> 8 word list" where
  "blockRows fw fh y data =
     (if y < fh then blockRows fw fh (y + PIXELATION_SIZE) (blockCols fw fh y 0 data)
      else data)"
  by pat_completeness auto
termination
  by (relation "measure (\<lambda>(fw, fh, y, data). fh - y)") (auto simp: PIXELATION_SIZE_def)

declare sumCols.simps [simp del] sumRows.simps [simp del] fillCols.simps [simp del]
  fillRows.simps [simp del] blockCols.simps [simp del] blockRows.simps [simp del]

definition pixelate :: "nat \<Rightarrow> nat \<Rightarrow> 8 word list \<Rightarrow> 8 word list" where
  "pixelate fw fh data = blockRows fw fh 0 data"

subsection \<open>The canvas\<close>

text \<open>
  The display canvas is its size and its bitmap of RGBA pixels, as \<^verbatim>\<open>getImageData\<close>
  exposes it (not premultiplied; the frames that \<^verbatim>\<open>drawImage\<close> copies from a video are
  opaque, so reading a pixel back gives what was written). \<^verbatim>\<open>getImageData(sx, sy, sw, sh)\<close> throws \<^verbatim>\<open>IndexSizeError\<close> when
  \<open>sw\<close> or \<open>sh\<close> is zero and otherwise copies the rectangle row by row (transparent black
  outside the canvas); \<^verbatim>\<open>putImageData(img, dx, dy)\<close> writes the pixels of \<open>img\<close> that
  fall inside the canvas. A method that mutates the canvas returns its outcome and the
  canvas afterwards: an exception leaves the canvas as it was when it was thrown.
  \<^verbatim>\<open>
  applyPrivacyFilter() {
      const pixelSize = this.PIXELATION_SIZE;
      const w = this.canvas.width;  const h = this.canvas.height;
      const faceRegion = { ... };
      const imageData = this.ctx.getImageData(faceRegion.x, faceRegion.y,
                                              faceRegion.width, faceRegion.height);
      const data = imageData.data;
      ... the loops ...
      this.ctx.putImageData(imageData, faceRegion.x, faceRegion.y);
  }
  \<close>
\<close>

record pixel =
  red :: "8 word"
  green :: "8 word"
  blue :: "8 word"
  alpha :: "8 word"

record canvas =
  canvas_width :: nat
  canvas_height :: nat
  bitmap :: "nat \<Rightarrow> nat \<Rightarrow> pixel"

record ImageData =
  image_width :: nat
  image_height :: nat
  data :: "8 word list"

datatype js_error = IndexSizeError | TypeError | NotAllowedError | FetchFailed | SyntaxError

definition pixelBytes :: "canvas \<Rightarrow> nat \<Rightarrow> nat \<Rightarrow> 8 word list" where
  "pixelBytes cv u v =
     (if u < canvas_width cv \<and> v < canvas_height cv
      then [red (bitmap cv u v), green (bitmap cv u v), blue (bitmap cv u v),
            alpha (bitmap cv u v)]
      else [0, 0, 0, 0])"

definition getImageData :: "canvas \<Rightarrow> nat \<Rightarrow> nat \<Rightarrow> nat \<Rightarrow> nat \<Rightarrow> js_error + ImageData" where
  "getImageData cv sx sy sw sh =
     (if sw = 0 \<or> sh = 0 then Inl IndexSizeError
      else Inr \<lparr> image_width = sw, image_height = sh,
        data = concat (map (\<lambda>row. concat (map (\<lambda>col. pixelBytes cv (sx + col) (sy + row))
                 [0..<sw])) [0..<sh]) \<rparr>)"

definition putImageData :: "canvas \<Rightarrow> ImageData \<Rightarrow> nat \<Rightarrow> nat \<Rightarrow> canvas" where
  "putImageData cv img dx dy =
     cv \<lparr> bitmap := (\<lambda>u v.
       if dx \<le> u \<and> u < dx + image_width img \<and> dy \<le> v \<and> v < dy + image_height img \<and>
          u < canvas_width cv \<and> v < canvas_height cv
       then (let idx = ((v - dy) * image_width img + (u - dx)) * 4 in
             \<lparr> red = data img ! idx, green = data img ! (idx + 1),
               blue = data img ! (idx + 2), alpha = data img ! (idx + 3) \<rparr>)
       else bitmap cv u v) \<rparr>"

definition applyPrivacyFilter :: "canvas \<Rightarrow> (js_error + unit) \<times> canvas" where
  "applyPrivacyFilter cv =
     (let w = canvas_width cv; h = canvas_height cv;
          fr = faceRegion w h
      in case getImageData cv (region_x fr) (region_y fr) (region_width fr) (region_height fr) of
           Inl e \<Rightarrow> (Inl e, cv)
         | Inr imageData \<Rightarrow>
             (Inr (),
              putImageData cv
                (imageData \<lparr> data := pixelate (region_width fr) (region_height fr) (data imageData) \<rparr>)
                (region_x fr) (region_y fr)))"


subsection \<open>Blocks and floored means, as the specification words them\<close>

text \<open>
  The region is cut into squares of side 16 starting at its top-left corner, edge blocks
  clipped to the region. \<open>blockCoords fr u v\<close> lists the canvas coordinates of the
  clipped block that holds \<open>(u, v)\<close>; \<open>flooredMean ch cv ps\<close> is the floored mean of
  channel \<open>ch\<close> of canvas \<open>cv\<close> over the coordinates \<open>ps\<close>.
\<close>

definition inRegion :: "FaceRegion \<Rightarrow> nat \<Rightarrow> nat \<Rightarrow> bool" where
  "inRegion fr u v \<longleftrightarrow>
     region_x fr \<le> u \<and> u < region_x fr + region_width fr \<and>
     region_y fr \<le> v \<and> v < region_y fr + region_height fr"

definition blockStart :: "nat \<Rightarrow> nat \<Rightarrow> nat" where
  "blockStart origin u = origin + (u - origin) div 16 * 16"

definition blockCoords :: "FaceRegion \<Rightarrow> nat \<Rightarrow> nat \<Rightarrow> (nat \<times> nat) list" where
  "blockCoords fr u v =
     (let bx = blockStart (region_x fr) u; by = blockStart (region_y fr) v
      in concat (map (\<lambda>v'. map (\<lambda>u'. (u', v'))
           [bx..<min (bx + 16) (region_x fr + region_width fr)])
           [by..<min (by + 16) (region_y fr + region_height fr)]))"

definition flooredMean :: "(pixel \<Rightarrow> 8 word) \<Rightarrow> canvas \<Rightarrow> (nat \<times> nat) list \<Rightarrow> nat" where
  "flooredMean ch cv ps = sum_list (map (\<lambda>(u, v). unat (ch (bitmap cv u v))) ps) div length ps"


subsection \<open>What the loops compute\<close>

text \<open>
  \<open>px fw d i j c\<close> is byte \<open>c\<close> of the pixel in column \<open>i\<close> and row \<open>j\<close> of an array of
  row length \<open>fw\<close>. Each loop is characterised by the bytes of its result.
\<close>

definition px :: "nat \<Rightarrow> 8 word list \<Rightarrow> nat \<Rightarrow> nat \<Rightarrow> nat \<Rightarrow> 8 word" where
  "px fw d i j c = d ! ((j * fw + i) * 4 + c)"

definition clip :: "nat \<Rightarrow> nat \<Rightarrow> nat" where
  "clip n x = min PIXELATION_SIZE (n - x)"

definition rowSum :: "nat \<Rightarrow> 8 word list \<Rightarrow> nat \<Rightarrow> nat \<Rightarrow> nat \<Rightarrow> nat \<Rightarrow> nat" where
  "rowSum fw d c x j lo = (\<Sum>k = lo..<clip fw x. unat (px fw d (x + k) j c))"

definition blockSum :: "nat \<Rightarrow> nat \<Rightarrow> 8 word list \<Rightarrow> nat \<Rightarrow> nat \<Rightarrow> nat \<Rightarrow> nat \<Rightarrow> nat" where
  "blockSum fw fh d c x y lo = (\<Sum>l = lo..<clip fh y. rowSum fw d c x (y + l) 0)"

lemma PIXELATION_SIZE_pos: "0 < PIXELATION_SIZE"
  by (simp add: PIXELATION_SIZE_def)

lemma clip_less: "k < clip n x \<longleftrightarrow> k < PIXELATION_SIZE \<and> x + k < n"
  by (auto simp: clip_def)

lemma idx_inj:
  assumes "i < fw" "i' < fw" "c < 4" "c' < 4"
  shows "(j * fw + i) * 4 + c = (j' * fw + i') * 4 + c' \<longleftrightarrow> i = i' \<and> j = j' \<and> c = (c'::nat)"
proof
  assume e: "(j * fw + i) * 4 + c = (j' * fw + i') * 4 + c'"
  from e assms have c: "c = c'" by presburger
  with e have p: "j * fw + i = j' * fw + i'" by simp
  have "(j * fw + i) mod fw = (j' * fw + i') mod fw" using p by simp
  with assms have i: "i = i'" by simp
  with p assms have "j = j'" by simp
  with c i show "i = i' \<and> j = j' \<and> c = c'" by simp
qed simp

lemma idx_bound:
  assumes "i < fw" "j < fh" "c < 4"
  shows "(j * fw + i) * 4 + c < fw * fh * (4::nat)"
proof -
  have "j * fw + i < Suc j * fw" using assms by simp
  also have "\<dots> \<le> fh * fw" using assms by (intro mult_le_mono1) simp
  finally have "j * fw + i < fw * fh" by (simp add: mult.commute)
  then show ?thesis using assms by simp
qed

lemma sumCols_eq:
  "sumCols fw d x y dy dx (r, g, b, n) =
     (r + rowSum fw d 0 x (y + dy) dx, g + rowSum fw d 1 x (y + dy) dx,
      b + rowSum fw d 2 x (y + dy) dx, n + (clip fw x - dx))"
proof (induction fw d x y dy dx "(r, g, b, n)" arbitrary: r g b n rule: sumCols.induct)
  case (1 fw d x y dy dx r g b n)
  show ?case
  proof (cases "dx < clip fw x")
    case True
    then have c: "dx < PIXELATION_SIZE \<and> x + dx < fw" by (simp add: clip_less)
    have s: "rowSum fw d c x (y + dy) dx =
        unat (px fw d (x + dx) (y + dy) c) + rowSum fw d c x (y + dy) (dx + 1)" for c
      using True by (simp add: rowSum_def sum.atLeast_Suc_lessThan)
    have n: "clip fw x - dx = Suc (clip fw x - Suc dx)"
      using True by simp
    have "sumCols fw d x y dy dx (r, g, b, n) =
        sumCols fw d x y dy (dx + 1)
          (r + unat (px fw d (x + dx) (y + dy) 0), g + unat (px fw d (x + dx) (y + dy) 1),
           b + unat (px fw d (x + dx) (y + dy) 2), n + 1)"
      using c by (subst sumCols.simps) (simp only: if_True simp_thms Let_def px_def add_0_right)
    also have "\<dots> =
        (r + unat (px fw d (x + dx) (y + dy) 0) + rowSum fw d 0 x (y + dy) (dx + 1),
         g + unat (px fw d (x + dx) (y + dy) 1) + rowSum fw d 1 x (y + dy) (dx + 1),
         b + unat (px fw d (x + dx) (y + dy) 2) + rowSum fw d 2 x (y + dy) (dx + 1),
         n + 1 + (clip fw x - (dx + 1)))"
      unfolding px_def add_0_right by (rule "1.hyps" [OF c refl])
    finally show ?thesis
      by (simp add: s n)
  next
    case False
    then have c: "\<not> (dx < PIXELATION_SIZE \<and> x + dx < fw)" by (simp add: clip_less)
    have z: "rowSum fw d c x (y + dy) dx = 0" for c
      using False by (simp add: rowSum_def)
    have "sumCols fw d x y dy dx (r, g, b, n) = (r, g, b, n)"
      using c by (subst sumCols.simps) (simp only: if_False)
    with False show ?thesis
      by (simp add: z)
  qed
qed

lemma sumRows_eq:
  "sumRows fw fh d x y dy (r, g, b, n) =
     (r + blockSum fw fh d 0 x y dy, g + blockSum fw fh d 1 x y dy,
      b + blockSum fw fh d 2 x y dy, n + (clip fh y - dy) * clip fw x)"
proof (induction fw fh d x y dy "(r, g, b, n)" arbitrary: r g b n rule: sumRows.induct)
  case (1 fw fh d x y dy r g b n)
  show ?case
  proof (cases "dy < clip fh y")
    case True
    then have c: "dy < PIXELATION_SIZE \<and> y + dy < fh" by (simp add: clip_less)
    have s: "blockSum fw fh d c x y dy =
        rowSum fw d c x (y + dy) 0 + blockSum fw fh d c x y (dy + 1)" for c
      using True by (simp add: blockSum_def sum.atLeast_Suc_lessThan)
    have n: "clip fh y - dy = Suc (clip fh y - Suc dy)"
      using True by simp
    have "sumRows fw fh d x y dy (r, g, b, n) =
        sumRows fw fh d x y (dy + 1) (sumCols fw d x y dy 0 (r, g, b, n))"
      using c by (subst sumRows.simps) (simp only: if_True simp_thms)
    also have "\<dots> =
        (r + rowSum fw d 0 x (y + dy) 0 + blockSum fw fh d 0 x y (dy + 1),
         g + rowSum fw d 1 x (y + dy) 0 + blockSum fw fh d 1 x y (dy + 1),
         b + rowSum fw d 2 x (y + dy) 0 + blockSum fw fh d 2 x y (dy + 1),
         n + (clip fw x - 0) + (clip fh y - (dy + 1)) * clip fw x)"
      unfolding sumCols_eq by (rule "1.hyps" [OF c sumCols_eq])
    finally show ?thesis
      by (simp add: s n)
  next
    case False
    then have c: "\<not> (dy < PIXELATION_SIZE \<and> y + dy < fh)" by (simp add: clip_less)
    have z: "blockSum fw fh d c x y dy = 0" for c
      using False by (simp add: blockSum_def)
    have "sumRows fw fh d x y dy (r, g, b, n) = (r, g, b, n)"
      using c by (subst sumRows.simps) (simp only: if_False)
    with False show ?thesis
      by (simp add: z)
  qed
qed


definition pick :: "nat \<Rightarrow> 'a \<Rightarrow> 'a \<Rightarrow> 'a \<Rightarrow> 'a" where
  "pick c r g b = (if c = 0 then r else if c = 1 then g else b)"

lemma px_update3:
  assumes "i' < fw" "j' < fh" "i < fw" "c < 4" "length d = fw * fh * 4"
  shows "px fw (d[(j' * fw + i') * 4 := a, (j' * fw + i') * 4 + 1 := b,
                  (j' * fw + i') * 4 + 2 := e]) i j c =
         (if i = i' \<and> j = j' \<and> c < 3 then pick c a b e else px fw d i j c)"
proof -
  have e0: "(j * fw + i) * 4 + c = (j' * fw + i') * 4 \<longleftrightarrow> i = i' \<and> j = j' \<and> c = 0"
    using idx_inj [OF assms(3) assms(1) assms(4), of 0 j j'] by simp
  have e1: "(j * fw + i) * 4 + c = (j' * fw + i') * 4 + 1 \<longleftrightarrow> i = i' \<and> j = j' \<and> c = 1"
    using idx_inj [OF assms(3) assms(1) assms(4), of 1 j j'] by simp
  have e2: "(j * fw + i) * 4 + c = (j' * fw + i') * 4 + 2 \<longleftrightarrow> i = i' \<and> j = j' \<and> c = 2"
    using idx_inj [OF assms(3) assms(1) assms(4), of 2 j j'] by simp
  have b: "(j' * fw + i') * 4 + 2 < length d" "(j' * fw + i') * 4 + 1 < length d"
      "(j' * fw + i') * 4 < length d"
    using idx_bound [OF assms(1) assms(2), of 2] idx_bound [OF assms(1) assms(2), of 1]
      idx_bound [OF assms(1) assms(2), of 0] assms(5) by simp_all
  have n: "d[k0 := a, k1 := b, k2 := e] ! k =
      (if k = k2 then e else if k = k1 then b else if k = k0 then a else d ! k)"
    if "k0 < length d" "k1 < length d" "k2 < length d" for k0 k1 k2 k
    using that by (simp add: nth_list_update)
  show ?thesis
    unfolding px_def n [OF b(3) b(2) b(1)] e0 e1 e2
    using assms(4) by (auto simp: pick_def)
qed

lemma fillCols_px:
  assumes "length d = fw * fh * 4" "y + dy < fh" "i < fw" "c < 4"
  shows "length (fillCols fw x y dy dx r g b d) = length d \<and>
         px fw (fillCols fw x y dy dx r g b d) i j c =
           (if j = y + dy \<and> x + dx \<le> i \<and> i < x + clip fw x \<and> c < 3
            then clamp8 (pick c r g b) else px fw d i j c)"
  using assms
proof (induction fw x y dy dx r g b d rule: fillCols.induct)
  case (1 fw x y dy dx r g b d)
  show ?case
  proof (cases "dx < clip fw x")
    case True
    then have c: "dx < PIXELATION_SIZE \<and> x + dx < fw" by (simp add: clip_less)
    define d' where "d' = d[((y + dy) * fw + (x + dx)) * 4 := clamp8 r,
        ((y + dy) * fw + (x + dx)) * 4 + 1 := clamp8 g,
        ((y + dy) * fw + (x + dx)) * 4 + 2 := clamp8 b]"
    have l: "length d' = fw * fh * 4" using "1.prems"(1) by (simp add: d'_def)
    have u: "fillCols fw x y dy dx r g b d = fillCols fw x y dy (dx + 1) r g b d'"
      using c by (subst fillCols.simps) (simp only: if_True simp_thms Let_def d'_def)
    have p: "px fw d' i j c =
        (if i = x + dx \<and> j = y + dy \<and> c < 3
         then pick c (clamp8 r) (clamp8 g) (clamp8 b) else px fw d i j c)"
      unfolding d'_def using c "1.prems" by (intro px_update3 [where fh = fh]) simp_all
    have k: "pick c (clamp8 r) (clamp8 g) (clamp8 b) = clamp8 (pick c r g b)"
      by (simp add: pick_def)
    have ih: "length (fillCols fw x y dy (dx + 1) r g b d') = length d' \<and>
        px fw (fillCols fw x y dy (dx + 1) r g b d') i j c =
          (if j = y + dy \<and> x + (dx + 1) \<le> i \<and> i < x + clip fw x \<and> c < 3
           then clamp8 (pick c r g b) else px fw d' i j c)"
      unfolding d'_def by (rule "1.IH" [OF c refl l [unfolded d'_def] "1.prems"(2,3,4)])
    have len: "length (fillCols fw x y dy dx r g b d) = length d"
      using ih l "1.prems"(1) by (simp only: u)
    have "px fw (fillCols fw x y dy dx r g b d) i j c =
        (if j = y + dy \<and> x + (dx + 1) \<le> i \<and> i < x + clip fw x \<and> c < 3
         then clamp8 (pick c r g b)
         else if i = x + dx \<and> j = y + dy \<and> c < 3
         then clamp8 (pick c r g b) else px fw d i j c)"
      using ih by (simp only: u p k)
    also have "\<dots> =
        (if j = y + dy \<and> x + dx \<le> i \<and> i < x + clip fw x \<and> c < 3
         then clamp8 (pick c r g b) else px fw d i j c)"
      using True by (cases "i = x + dx") auto
    finally show ?thesis
      using len by simp
  next
    case False
    then have c: "\<not> (dx < PIXELATION_SIZE \<and> x + dx < fw)" by (simp add: clip_less)
    have "fillCols fw x y dy dx r g b d = d"
      using c by (subst fillCols.simps) (simp only: if_False)
    with False show ?thesis by auto
  qed
qed


lemma fillRows_px:
  assumes "length d = fw * fh * 4" "i < fw" "c < 4"
  shows "length (fillRows fw fh x y dy r g b d) = length d \<and>
         px fw (fillRows fw fh x y dy r g b d) i j c =
           (if y + dy \<le> j \<and> j < y + clip fh y \<and> x \<le> i \<and> i < x + clip fw x \<and> c < 3
            then clamp8 (pick c r g b) else px fw d i j c)"
  using assms
proof (induction fw fh x y dy r g b d rule: fillRows.induct)
  case (1 fw fh x y dy r g b d)
  show ?case
  proof (cases "dy < clip fh y")
    case True
    then have c: "dy < PIXELATION_SIZE \<and> y + dy < fh" by (simp add: clip_less)
    define d' where "d' = fillCols fw x y dy 0 r g b d"
    have f: "length d' = length d \<and>
        px fw d' i j c =
          (if j = y + dy \<and> x + 0 \<le> i \<and> i < x + clip fw x \<and> c < 3
           then clamp8 (pick c r g b) else px fw d i j c)"
      unfolding d'_def using "1.prems" c by (intro fillCols_px [where fh = fh]) simp_all
    then have l: "length d' = fw * fh * 4" using "1.prems"(1) by simp
    have u: "fillRows fw fh x y dy r g b d = fillRows fw fh x y (dy + 1) r g b d'"
      using c by (subst fillRows.simps) (simp only: if_True simp_thms d'_def)
    have ih: "length (fillRows fw fh x y (dy + 1) r g b d') = length d' \<and>
        px fw (fillRows fw fh x y (dy + 1) r g b d') i j c =
          (if y + (dy + 1) \<le> j \<and> j < y + clip fh y \<and> x \<le> i \<and> i < x + clip fw x \<and> c < 3
           then clamp8 (pick c r g b) else px fw d' i j c)"
      unfolding d'_def by (rule "1.IH" [OF c l [unfolded d'_def] "1.prems"(2,3)])
    have len: "length (fillRows fw fh x y dy r g b d) = length d"
      using ih f by (simp only: u)
    have "px fw (fillRows fw fh x y dy r g b d) i j c =
        (if y + (dy + 1) \<le> j \<and> j < y + clip fh y \<and> x \<le> i \<and> i < x + clip fw x \<and> c < 3
         then clamp8 (pick c r g b)
         else if j = y + dy \<and> x + 0 \<le> i \<and> i < x + clip fw x \<and> c < 3
         then clamp8 (pick c r g b) else px fw d i j c)"
      using ih f by (simp only: u)
    also have "\<dots> =
        (if y + dy \<le> j \<and> j < y + clip fh y \<and> x \<le> i \<and> i < x + clip fw x \<and> c < 3
         then clamp8 (pick c r g b) else px fw d i j c)"
      using True by (cases "j = y + dy") auto
    finally show ?thesis
      using len by simp
  next
    case False
    then have c: "\<not> (dy < PIXELATION_SIZE \<and> y + dy < fh)" by (simp add: clip_less)
    have "fillRows fw fh x y dy r g b d = d"
      using c by (subst fillRows.simps) (simp only: if_False)
    with False show ?thesis by auto
  qed
qed

definition blockMean :: "nat \<Rightarrow> nat \<Rightarrow> 8 word list \<Rightarrow> nat \<Rightarrow> nat \<Rightarrow> nat \<Rightarrow> nat" where
  "blockMean fw fh d c x y = blockSum fw fh d c x y 0 div (clip fh y * clip fw x)"

definition inBlock :: "nat \<Rightarrow> nat \<Rightarrow> nat \<Rightarrow> nat \<Rightarrow> nat \<Rightarrow> nat \<Rightarrow> bool" where
  "inBlock fw fh x y i j \<longleftrightarrow> y \<le> j \<and> j < y + clip fh y \<and> x \<le> i \<and> i < x + clip fw x"

lemma pixelateBlock_px:
  assumes "length d = fw * fh * 4" "i < fw" "c < 4"
  shows "length (pixelateBlock fw fh x y d) = length d \<and>
         px fw (pixelateBlock fw fh x y d) i j c =
           (if inBlock fw fh x y i j \<and> c < 3
            then clamp8 (blockMean fw fh d c x y) else px fw d i j c)"
proof -
  have s: "sumRows fw fh d x y 0 (0, 0, 0, 0) =
      (blockSum fw fh d 0 x y 0, blockSum fw fh d 1 x y 0, blockSum fw fh d 2 x y 0,
       clip fh y * clip fw x)"
    by (simp add: sumRows_eq)
  have k: "c < 3 \<Longrightarrow> pick c (blockSum fw fh d 0 x y 0 div n) (blockSum fw fh d 1 x y 0 div n)
      (blockSum fw fh d 2 x y 0 div n) = blockSum fw fh d c x y 0 div n" for n
    by (cases "c = 0"; cases "c = 1"; cases "c = 2") (simp_all add: pick_def)
  define n where "n = clip fh y * clip fw x"
  have u: "pixelateBlock fw fh x y d =
      fillRows fw fh x y 0 (blockSum fw fh d 0 x y 0 div n) (blockSum fw fh d 1 x y 0 div n)
        (blockSum fw fh d 2 x y 0 div n) d"
    unfolding pixelateBlock_def s prod.case n_def by (rule refl)
  note f = fillRows_px [OF assms, of x y 0 "blockSum fw fh d 0 x y 0 div n"
      "blockSum fw fh d 1 x y 0 div n" "blockSum fw fh d 2 x y 0 div n" j]
  show ?thesis
  proof (cases "c < 3")
    case True
    show ?thesis
      unfolding u inBlock_def blockMean_def n_def [symmetric]
      using f True by (simp only: k [OF True] add_0_right simp_thms)
  next
    case False
    show ?thesis
      unfolding u using f False by (simp only: simp_thms if_False)
  qed
qed

definition blk :: "nat \<Rightarrow> nat" where
  "blk i = i - i mod PIXELATION_SIZE"

lemma blk_le: "blk i \<le> i"
  by (simp add: blk_def)

lemma blk_dvd: "PIXELATION_SIZE dvd blk i"
  by (simp add: blk_def dvd_minus_mod)

lemma blk_less: "i < blk i + PIXELATION_SIZE"
proof -
  have "i mod PIXELATION_SIZE < PIXELATION_SIZE"
    using PIXELATION_SIZE_pos by simp
  moreover have "i mod PIXELATION_SIZE \<le> i" by simp
  ultimately show ?thesis unfolding blk_def by linarith
qed

lemma blk_in:
  assumes "PIXELATION_SIZE dvd x" "x \<le> i" "i < x + PIXELATION_SIZE"
  shows "blk i = x"
proof -
  from assms(1) obtain q where q: "x = PIXELATION_SIZE * q" ..
  have "i = PIXELATION_SIZE * q + (i - x)" using assms(2) q by simp
  moreover have "i - x < PIXELATION_SIZE" using assms by simp
  ultimately have "i mod PIXELATION_SIZE = i - x"
    by (metis mod_less mod_mult_self4 mult.commute)
  then show ?thesis using assms(2) by (simp add: blk_def)
qed

lemma blk_ge:
  assumes "PIXELATION_SIZE dvd x" "x \<le> i"
  shows "x \<le> blk i"
proof (rule ccontr)
  assume "\<not> x \<le> blk i"
  then have l: "blk i < x" by simp
  from assms(1) obtain q where q: "x = PIXELATION_SIZE * q" ..
  from blk_dvd obtain p where p: "blk i = PIXELATION_SIZE * p" ..
  from l p q have "p < q" by simp
  then have "Suc p \<le> q" by simp
  then have "PIXELATION_SIZE * Suc p \<le> PIXELATION_SIZE * q" by (rule mult_le_mono2)
  then have "blk i + PIXELATION_SIZE \<le> x" using p q by simp
  with blk_less [of i] assms(2) show False by simp
qed

lemma blockMean_cong:
  assumes "\<And>k l. k < clip fw bx \<Longrightarrow> l < clip fh by \<Longrightarrow>
     px fw d1 (bx + k) (by + l) c = px fw d (bx + k) (by + l) c"
  shows "blockMean fw fh d1 c bx by = blockMean fw fh d c bx by"
proof -
  have "blockSum fw fh d1 c bx by 0 = blockSum fw fh d c bx by 0"
    unfolding blockSum_def rowSum_def add_0_right
    by (intro sum.cong refl arg_cong [where f = unat] assms) simp_all
  then show ?thesis
    by (simp only: blockMean_def)
qed

lemma blockCols_px:
  assumes "length d = fw * fh * 4" "i < fw" "c < 4" "PIXELATION_SIZE dvd x"
  shows "length (blockCols fw fh y x d) = length d \<and>
         px fw (blockCols fw fh y x d) i j c =
           (if y \<le> j \<and> j < y + clip fh y \<and> x \<le> i \<and> c < 3
            then clamp8 (blockMean fw fh d c (blk i) y) else px fw d i j c)"
  using assms
proof (induction fw fh y x d rule: blockCols.induct)
  case (1 fw fh y x d)
  show ?case
  proof (cases "x < fw")
    case True
    define d1 where "d1 = pixelateBlock fw fh x y d"
    have b: "length d1 = length d \<and>
        px fw d1 i' j' c' =
          (if inBlock fw fh x y i' j' \<and> c' < 3
           then clamp8 (blockMean fw fh d c' x y) else px fw d i' j' c')"
      if "i' < fw" "c' < 4" for i' j' c'
      unfolding d1_def using "1.prems"(1) that by (rule pixelateBlock_px)
    have l: "length d1 = fw * fh * 4"
      using b [OF "1.prems"(2,3)] "1.prems"(1) by simp
    have dv: "PIXELATION_SIZE dvd x + PIXELATION_SIZE"
      using "1.prems"(4) by simp
    have u: "blockCols fw fh y x d = blockCols fw fh y (x + PIXELATION_SIZE) d1"
      using True by (subst blockCols.simps) (simp only: if_True d1_def)
    have ih: "length (blockCols fw fh y (x + PIXELATION_SIZE) d1) = length d1 \<and>
        px fw (blockCols fw fh y (x + PIXELATION_SIZE) d1) i j c =
          (if y \<le> j \<and> j < y + clip fh y \<and> x + PIXELATION_SIZE \<le> i \<and> c < 3
           then clamp8 (blockMean fw fh d1 c (blk i) y) else px fw d1 i j c)"
      unfolding d1_def by (rule "1.IH" [OF True l [unfolded d1_def] "1.prems"(2,3) dv])
    have len: "length (blockCols fw fh y x d) = length d"
      using ih l "1.prems"(1) by (simp only: u)
    have far: "blockMean fw fh d1 c (blk i) y = blockMean fw fh d c (blk i) y"
      if "x + PIXELATION_SIZE \<le> i"
    proof (rule blockMean_cong)
      fix k l assume k: "k < clip fw (blk i)" and "l < clip fh y"
      have "x + PIXELATION_SIZE \<le> blk i" using dv that by (rule blk_ge)
      moreover have "clip fw x \<le> PIXELATION_SIZE" by (simp add: clip_def)
      ultimately have "\<not> inBlock fw fh x y (blk i + k) (y + l)"
        unfolding inBlock_def by linarith
      moreover have "blk i + k < fw" using k by (simp add: clip_less)
      ultimately show "px fw d1 (blk i + k) (y + l) c = px fw d (blk i + k) (y + l) c"
        using b [of "blk i + k" c "y + l"] "1.prems"(3) by simp
    qed
    have near: "blk i = x \<and> inBlock fw fh x y i j"
      if "x \<le> i" "i < x + PIXELATION_SIZE" "y \<le> j" "j < y + clip fh y"
      using that "1.prems"(2,4) by (simp add: blk_in inBlock_def clip_def)
    have before: "\<not> inBlock fw fh x y i j" if "i < x"
      using that by (simp add: inBlock_def)
    have rows: "\<not> inBlock fw fh x y i j" if "\<not> (y \<le> j \<and> j < y + clip fh y)"
      using that by (auto simp: inBlock_def)
    have "px fw (blockCols fw fh y x d) i j c =
        (if y \<le> j \<and> j < y + clip fh y \<and> x \<le> i \<and> c < 3
         then clamp8 (blockMean fw fh d c (blk i) y) else px fw d i j c)"
    proof (cases "y \<le> j \<and> j < y + clip fh y \<and> c < 3")
      case False
      with rows have "\<not> (inBlock fw fh x y i j \<and> c < 3)" by blast
      with False ih b [OF "1.prems"(2,3), of j] show ?thesis
        unfolding u by auto
    next
      case rc: True
      consider "i < x" | "x \<le> i" "i < x + PIXELATION_SIZE" | "x + PIXELATION_SIZE \<le> i"
        by linarith
      then show ?thesis
      proof cases
        case 1
        with before ih b [OF "1.prems"(2,3), of j] show ?thesis
          unfolding u by auto
      next
        case 2
        with near [of ] rc ih b [OF "1.prems"(2,3), of j] show ?thesis
          unfolding u by auto
      next
        case 3
        with far rc ih show ?thesis
          unfolding u by auto
      qed
    qed
    with len show ?thesis by simp
  next
    case False
    have "blockCols fw fh y x d = d"
      using False by (subst blockCols.simps) (simp only: if_False)
    with False "1.prems"(2) show ?thesis by auto
  qed
qed


lemma blockRows_px:
  assumes "length d = fw * fh * 4" "i < fw" "j < fh" "c < 4" "PIXELATION_SIZE dvd y"
  shows "length (blockRows fw fh y d) = length d \<and>
         px fw (blockRows fw fh y d) i j c =
           (if y \<le> j \<and> c < 3
            then clamp8 (blockMean fw fh d c (blk i) (blk j)) else px fw d i j c)"
  using assms
proof (induction fw fh y d rule: blockRows.induct)
  case (1 fw fh y d)
  show ?case
  proof (cases "y < fh")
    case True
    define d1 where "d1 = blockCols fw fh y 0 d"
    have b: "length d1 = length d \<and>
        px fw d1 i' j' c' =
          (if y \<le> j' \<and> j' < y + clip fh y \<and> 0 \<le> i' \<and> c' < 3
           then clamp8 (blockMean fw fh d c' (blk i') y) else px fw d i' j' c')"
      if "i' < fw" "c' < 4" for i' j' c'
      unfolding d1_def using "1.prems"(1) that by (rule blockCols_px) simp
    have l: "length d1 = fw * fh * 4"
      using b [OF "1.prems"(2,4)] "1.prems"(1) by simp
    have dv: "PIXELATION_SIZE dvd y + PIXELATION_SIZE"
      using "1.prems"(5) by simp
    have u: "blockRows fw fh y d = blockRows fw fh (y + PIXELATION_SIZE) d1"
      using True by (subst blockRows.simps) (simp only: if_True d1_def)
    have ih: "length (blockRows fw fh (y + PIXELATION_SIZE) d1) = length d1 \<and>
        px fw (blockRows fw fh (y + PIXELATION_SIZE) d1) i j c =
          (if y + PIXELATION_SIZE \<le> j \<and> c < 3
           then clamp8 (blockMean fw fh d1 c (blk i) (blk j)) else px fw d1 i j c)"
      unfolding d1_def by (rule "1.IH" [OF True l [unfolded d1_def] "1.prems"(2,3,4) dv])
    have len: "length (blockRows fw fh y d) = length d"
      using ih l "1.prems"(1) by (simp only: u)
    have cl: "clip fh y \<le> PIXELATION_SIZE" by (simp add: clip_def)
    have far: "blockMean fw fh d1 c (blk i) (blk j) = blockMean fw fh d c (blk i) (blk j)"
      if "y + PIXELATION_SIZE \<le> j"
    proof (rule blockMean_cong)
      fix k l assume k: "k < clip fw (blk i)" and "l < clip fh (blk j)"
      have "y + PIXELATION_SIZE \<le> blk j" using dv that by (rule blk_ge)
      with cl have n: "\<not> (y \<le> blk j + l \<and> blk j + l < y + clip fh y \<and>
          0 \<le> blk i + k \<and> c < 3)" by linarith
      have "blk i + k < fw" using k by (simp add: clip_less)
      from b [OF this "1.prems"(4), of "blk j + l"]
      show "px fw d1 (blk i + k) (blk j + l) c = px fw d (blk i + k) (blk j + l) c"
        by (simp only: n if_False)
    qed
    have near: "blk j = y \<and> j < y + clip fh y"
      if "y \<le> j" "j < y + PIXELATION_SIZE"
      using that "1.prems"(3,5) by (simp add: blk_in clip_def)
    have "px fw (blockRows fw fh y d) i j c =
        (if y \<le> j \<and> c < 3
         then clamp8 (blockMean fw fh d c (blk i) (blk j)) else px fw d i j c)"
    proof (cases "c < 3")
      case False
      with ih b [OF "1.prems"(2,4), of j] show ?thesis
        unfolding u by auto
    next
      case rc: True
      consider "j < y" | "y \<le> j" "j < y + PIXELATION_SIZE" | "y + PIXELATION_SIZE \<le> j"
        by linarith
      then show ?thesis
      proof cases
        case 1
        with ih b [OF "1.prems"(2,4), of j] show ?thesis
          unfolding u by auto
      next
        case 2
        with near rc ih b [OF "1.prems"(2,4), of j] show ?thesis
          unfolding u by auto
      next
        case 3
        with far rc ih show ?thesis
          unfolding u by auto
      qed
    qed
    with len show ?thesis by simp
  next
    case False
    have "blockRows fw fh y d = d"
      using False by (subst blockRows.simps) (simp only: if_False)
    with False "1.prems"(3) show ?thesis by auto
  qed
qed

lemma pixelate_px:
  assumes "length d = fw * fh * 4" "i < fw" "j < fh" "c < 4"
  shows "px fw (pixelate fw fh d) i j c =
           (if c < 3 then clamp8 (blockMean fw fh d c (blk i) (blk j)) else px fw d i j c)"
  using blockRows_px [OF assms, of 0] by (simp add: pixelate_def)

lemma fillCols_length: "length (fillCols fw x y dy dx r g b d) = length d"
proof (induction fw x y dy dx r g b d rule: fillCols.induct)
  case (1 fw x y dy dx r g b d)
  show ?case
  proof (cases "dx < PIXELATION_SIZE \<and> x + dx < fw")
    case True
    from "1.IH" [OF True refl] True show ?thesis
      by (subst fillCols.simps) (simp add: Let_def)
  next
    case False
    show ?thesis by (subst fillCols.simps) (simp only: False if_False)
  qed
qed

lemma fillRows_length: "length (fillRows fw fh x y dy r g b d) = length d"
proof (induction fw fh x y dy r g b d rule: fillRows.induct)
  case (1 fw fh x y dy r g b d)
  show ?case
  proof (cases "dy < PIXELATION_SIZE \<and> y + dy < fh")
    case True
    from "1.IH" [OF True] True show ?thesis
      by (subst fillRows.simps) (simp add: fillCols_length)
  next
    case False
    show ?thesis by (subst fillRows.simps) (simp only: False if_False)
  qed
qed

lemma pixelateBlock_length: "length (pixelateBlock fw fh x y d) = length d"
  by (simp add: pixelateBlock_def fillRows_length split: prod.splits)

lemma blockCols_length: "length (blockCols fw fh y x d) = length d"
proof (induction fw fh y x d rule: blockCols.induct)
  case (1 fw fh y x d)
  show ?case
  proof (cases "x < fw")
    case True
    from "1.IH" [OF True] True show ?thesis
      by (subst blockCols.simps) (simp add: pixelateBlock_length)
  next
    case False
    then show ?thesis by (subst blockCols.simps) simp
  qed
qed

lemma blockRows_length: "length (blockRows fw fh y d) = length d"
proof (induction fw fh y d rule: blockRows.induct)
  case (1 fw fh y d)
  show ?case
  proof (cases "y < fh")
    case True
    from "1.IH" [OF True] True show ?thesis
      by (subst blockRows.simps) (simp add: blockCols_length)
  next
    case False
    then show ?thesis by (subst blockRows.simps) simp
  qed
qed

lemma pixelate_length: "length (pixelate fw fh d) = length d"
  by (simp add: pixelate_def blockRows_length)


subsection \<open>From the array to the canvas\<close>

lemma concat_upt_nth:
  assumes "\<And>r. r < n \<Longrightarrow> length (f r) = m"
  shows "length (concat (map f [0..<n])) = n * m \<and>
         (\<forall>j i. j < n \<longrightarrow> i < m \<longrightarrow> concat (map f [0..<n]) ! (j * m + i) = f j ! i)"
  using assms
proof (induction n)
  case 0
  show ?case by simp
next
  case (Suc n)
  have ih: "length (concat (map f [0..<n])) = n * m"
      "\<And>j i. j < n \<Longrightarrow> i < m \<Longrightarrow> concat (map f [0..<n]) ! (j * m + i) = f j ! i"
    using Suc.IH Suc.prems by simp_all
  have l: "length (f n) = m" using Suc.prems by simp
  have c: "concat (map f [0..<Suc n]) = concat (map f [0..<n]) @ f n" by simp
  have "concat (map f [0..<Suc n]) ! (j * m + i) = f j ! i" if "j < Suc n" "i < m" for j i
  proof (cases "j < n")
    case True
    have "j * m + i < Suc j * m" using that by simp
    also have "\<dots> \<le> n * m" using True by (intro mult_le_mono1) simp
    finally show ?thesis unfolding c using ih True that by (simp add: nth_append)
  next
    case False
    with that have "j = n" by simp
    then show ?thesis unfolding c using ih(1) by (simp add: nth_append)
  qed
  then show ?case using ih(1) l by simp
qed

definition chan :: "nat \<Rightarrow> pixel \<Rightarrow> 8 word" where
  "chan c p = (if c = 0 then red p else if c = 1 then green p else if c = 2 then blue p else alpha p)"

lemma pixelBytes_nth:
  assumes "u < canvas_width cv" "v < canvas_height cv" "c < 4"
  shows "pixelBytes cv u v ! c = chan c (bitmap cv u v)"
proof -
  from assms(3) consider "c = 0" | "c = 1" | "c = 2" | "c = 3" by linarith
  then show ?thesis using assms(1,2) by cases (simp_all add: pixelBytes_def chan_def)
qed

lemma pixelBytes_length: "length (pixelBytes cv u v) = 4"
  by (simp add: pixelBytes_def)

definition regionData :: "canvas \<Rightarrow> nat \<Rightarrow> nat \<Rightarrow> nat \<Rightarrow> nat \<Rightarrow> 8 word list" where
  "regionData cv sx sy sw sh =
     concat (map (\<lambda>row. concat (map (\<lambda>col. pixelBytes cv (sx + col) (sy + row)) [0..<sw])) [0..<sh])"

lemma regionData_length: "length (regionData cv sx sy sw sh) = sw * sh * 4"
proof -
  have r: "length (concat (map (\<lambda>col. pixelBytes cv (sx + col) (sy + row)) [0..<sw])) = sw * 4"
    for row
    using concat_upt_nth [of sw "\<lambda>col. pixelBytes cv (sx + col) (sy + row)" 4]
    by (simp add: pixelBytes_length)
  show ?thesis
    unfolding regionData_def
    using concat_upt_nth [of sh
      "\<lambda>row. concat (map (\<lambda>col. pixelBytes cv (sx + col) (sy + row)) [0..<sw])" "sw * 4"] r
    by (simp add: mult.commute)
qed

lemma regionData_px:
  assumes "i < sw" "j < sh" "c < 4" "sx + sw \<le> canvas_width cv" "sy + sh \<le> canvas_height cv"
  shows "px sw (regionData cv sx sy sw sh) i j c = chan c (bitmap cv (sx + i) (sy + j))"
proof -
  let ?row = "\<lambda>row. concat (map (\<lambda>col. pixelBytes cv (sx + col) (sy + row)) [0..<sw])"
  have r: "length (?row row) = sw * 4 \<and>
      (\<forall>j i. j < sw \<longrightarrow> i < 4 \<longrightarrow> ?row row ! (j * 4 + i) = pixelBytes cv (sx + j) (sy + row) ! i)"
    for row
    by (rule concat_upt_nth) (simp add: pixelBytes_length)
  have o: "\<forall>j i. j < sh \<longrightarrow> i < sw * 4 \<longrightarrow>
      concat (map ?row [0..<sh]) ! (j * (sw * 4) + i) = ?row j ! i"
    using concat_upt_nth [of sh ?row "sw * 4"] r by blast
  have e: "(j * sw + i) * 4 + c = j * (sw * 4) + (i * 4 + c)"
    by (simp add: algebra_simps)
  have b: "i * 4 + c < sw * 4" using assms(1,3) by simp
  have "px sw (regionData cv sx sy sw sh) i j c = ?row j ! (i * 4 + c)"
    unfolding px_def regionData_def e using o assms(2) b by blast
  also have "\<dots> = pixelBytes cv (sx + i) (sy + j) ! c"
    using r assms(1,3) by blast
  also have "\<dots> = chan c (bitmap cv (sx + i) (sy + j))"
    using assms by (intro pixelBytes_nth) simp_all
  finally show ?thesis .
qed

lemma idx_decomp:
  assumes "k < fw * fh * (4::nat)"
  obtains i j c where "i < fw" "j < fh" "c < 4" "k = (j * fw + i) * 4 + c"
proof -
  have q: "k div 4 < fw * fh" using assms by simp
  then have p: "0 < fw" by (cases fw) simp_all
  have "k div 4 mod fw < fw" using p by simp
  moreover have "k div 4 div fw < fh"
    using q by (simp add: less_mult_imp_div_less mult.commute)
  moreover have "k mod 4 < 4" by simp
  moreover have "k = ((k div 4 div fw) * fw + k div 4 mod fw) * 4 + k mod 4"
    by simp
  ultimately show ?thesis by (rule that)
qed

lemma unat_clamp8: "unat (clamp8 m) = min m 255"
  by (simp add: clamp8_def unat_of_nat)

lemma clamp8_min: "clamp8 (min m 255) = clamp8 m"
  by (simp add: clamp8_def)

lemma blockMean_const:
  assumes "\<And>k l. k < clip fw bx \<Longrightarrow> l < clip fh by \<Longrightarrow>
     unat (px fw d (bx + k) (by + l) c) = m" "0 < clip fw bx" "0 < clip fh by"
  shows "blockMean fw fh d c bx by = m"
proof -
  have "blockSum fw fh d c bx by 0 = (\<Sum>l = 0..<clip fh by. \<Sum>k = 0..<clip fw bx. m)"
    unfolding blockSum_def rowSum_def add_0_right
    by (intro sum.cong refl assms(1)) simp_all
  also have "\<dots> = m * (clip fh by * clip fw bx)" by simp
  finally show ?thesis
    using assms(2,3) by (simp add: blockMean_def)
qed

lemma blk_blk: "k < PIXELATION_SIZE \<Longrightarrow> blk (blk i + k) = blk i"
  by (rule blk_in) (simp_all add: blk_dvd)

lemma clip_pos: "x < n \<Longrightarrow> 0 < clip n x"
  by (simp add: clip_def PIXELATION_SIZE_pos)

lemma pixelate_idem:
  assumes "length d = fw * fh * 4"
  shows "pixelate fw fh (pixelate fw fh d) = pixelate fw fh d"
proof (rule nth_equalityI)
  show "length (pixelate fw fh (pixelate fw fh d)) = length (pixelate fw fh d)"
    by (simp add: pixelate_length)
next
  fix n assume "n < length (pixelate fw fh (pixelate fw fh d))"
  then have "n < fw * fh * 4" using assms by (simp add: pixelate_length)
  then obtain i j c where ijc: "i < fw" "j < fh" "c < 4" and n: "n = (j * fw + i) * 4 + c"
    by (rule idx_decomp)
  let ?d1 = "pixelate fw fh d"
  have l1: "length ?d1 = fw * fh * 4" using assms by (simp add: pixelate_length)
  have "px fw (pixelate fw fh ?d1) i j c = px fw ?d1 i j c"
  proof (cases "c < 3")
    case True
    let ?m = "blockMean fw fh d c (blk i) (blk j)"
    have bi: "blk i < fw" "blk j < fh" using ijc blk_le [of i] blk_le [of j] by simp_all
    have "blockMean fw fh ?d1 c (blk i) (blk j) = min ?m 255"
    proof (rule blockMean_const)
      fix k l assume k: "k < clip fw (blk i)" and l: "l < clip fh (blk j)"
      then have r: "blk i + k < fw" "blk j + l < fh" "k < PIXELATION_SIZE" "l < PIXELATION_SIZE"
        by (simp_all add: clip_less)
      show "unat (px fw ?d1 (blk i + k) (blk j + l) c) = min ?m 255"
        using pixelate_px [OF assms r(1,2) ijc(3)] True r(3,4)
        by (simp add: blk_blk unat_clamp8)
    qed (use bi in \<open>simp_all add: clip_pos\<close>)
    then show ?thesis
      using pixelate_px [OF l1 ijc] pixelate_px [OF assms ijc] True
      by (simp add: clamp8_min)
  next
    case False
    then show ?thesis
      using pixelate_px [OF l1 ijc] pixelate_px [OF assms ijc] by simp
  qed
  then show "pixelate fw fh (pixelate fw fh d) ! n = pixelate fw fh d ! n"
    by (simp add: px_def n)
qed

lemma blockMean_le: "blockMean fw fh d c x y \<le> 255"
proof -
  have u: "unat w \<le> 255" for w :: "8 word"
    using unsigned_less [of w, where ?'a = nat] by simp
  have "blockSum fw fh d c x y 0 \<le> (\<Sum>l = 0..<clip fh y. \<Sum>k = 0..<clip fw x. 255)"
    unfolding blockSum_def rowSum_def by (intro sum_mono u)
  also have "\<dots> = 255 * (clip fh y * clip fw x)" by simp
  finally have "blockSum fw fh d c x y 0 div (clip fh y * clip fw x) \<le>
      255 * (clip fh y * clip fw x) div (clip fh y * clip fw x)"
    by (rule div_le_mono)
  also have "\<dots> \<le> 255"
    by (cases "clip fh y * clip fw x = 0") simp_all
  finally show ?thesis by (simp add: blockMean_def)
qed

lemma sum_list_shift: "sum_list (map h [a..<a + n]) = (\<Sum>l = 0..<n. h (a + l))"
  by (induction n) simp_all

lemma sum_list_grid:
  "sum_list (map g (concat (map (\<lambda>v. map (\<lambda>u. (u, v)) [a..<a + m]) [b..<b + n]))) =
     (\<Sum>l = 0..<n. \<Sum>k = 0..<m. g (a + k, b + l))"
proof -
  have c: "sum_list (map g (concat (map F xs))) = sum_list (map (\<lambda>v. sum_list (map g (F v))) xs)"
    for F :: "nat \<Rightarrow> (nat \<times> nat) list" and xs
    by (induction xs) simp_all
  have r: "sum_list (map g (map (\<lambda>u. (u, v)) [a..<a + m])) = (\<Sum>k = 0..<m. g (a + k, v))" for v
    using sum_list_shift [of "\<lambda>u. g (u, v)" a m] by (simp add: comp_def)
  show ?thesis
    unfolding c r by (rule sum_list_shift)
qed

lemma length_grid:
  "length (concat (map (\<lambda>v. map (\<lambda>u. (u, v)) [a..<a + m]) [b..<b + n])) = n * m"
  by (simp add: length_concat comp_def sum_list_triv)

lemma blk_div: "blk i = i div PIXELATION_SIZE * PIXELATION_SIZE"
  by (simp add: blk_def minus_mod_eq_div_mult)

lemma blockCoords_grid:
  assumes "inRegion fr u v"
  shows "blockCoords fr u v =
     concat (map (\<lambda>v'. map (\<lambda>u'. (u', v'))
       [region_x fr + blk (u - region_x fr)..<
          region_x fr + blk (u - region_x fr) + clip (region_width fr) (blk (u - region_x fr))])
       [region_y fr + blk (v - region_y fr)..<
          region_y fr + blk (v - region_y fr) + clip (region_height fr) (blk (v - region_y fr))])"
proof -
  have m: "min (o' + b + PIXELATION_SIZE) (o' + w) = o' + b + clip w b" if "b \<le> w" for o' b w
    using that unfolding clip_def min_def by auto
  have x: "blk (u - region_x fr) \<le> region_width fr"
    using assms blk_le [of "u - region_x fr"] unfolding inRegion_def by linarith
  have y: "blk (v - region_y fr) \<le> region_height fr"
    using assms blk_le [of "v - region_y fr"] unfolding inRegion_def by linarith
  have s: "blockStart origin w = origin + blk (w - origin)" for origin w
    by (simp add: blockStart_def blk_div PIXELATION_SIZE_def)
  have p: "(16::nat) = PIXELATION_SIZE" by (simp add: PIXELATION_SIZE_def)
  show ?thesis
    unfolding blockCoords_def Let_def s
    unfolding p m [OF x] m [OF y] by (rule refl)
qed


lemma faceRegion_inside:
  "region_x (faceRegion w h) + region_width (faceRegion w h) \<le> w"
  "region_y (faceRegion w h) + region_height (faceRegion w h) \<le> h"
  by (simp_all add: faceRegion_div quarter_half half_sum)

definition filtered :: "canvas \<Rightarrow> 8 word list" where
  "filtered cv =
     (let fr = faceRegion (canvas_width cv) (canvas_height cv)
      in pixelate (region_width fr) (region_height fr)
           (regionData cv (region_x fr) (region_y fr) (region_width fr) (region_height fr)))"

lemma applyPrivacyFilter_eq:
  "applyPrivacyFilter cv =
     (let fr = faceRegion (canvas_width cv) (canvas_height cv)
      in if region_width fr = 0 \<or> region_height fr = 0 then (Inl IndexSizeError, cv)
         else (Inr (),
               putImageData cv \<lparr> image_width = region_width fr, image_height = region_height fr,
                 data = filtered cv \<rparr> (region_x fr) (region_y fr)))"
  by (simp add: applyPrivacyFilter_def getImageData_def Let_def filtered_def regionData_def)

lemma applyPrivacyFilter_returns:
  "fst (applyPrivacyFilter cv) =
     (if 2 \<le> canvas_width cv \<and> 3 \<le> canvas_height cv then Inr () else Inl IndexSizeError)"
proof -
  have "canvas_width cv div 2 = 0 \<longleftrightarrow> \<not> 2 \<le> canvas_width cv"
    "canvas_height cv * 9 div 20 = 0 \<longleftrightarrow> \<not> 3 \<le> canvas_height cv"
    by linarith+
  then show ?thesis
    by (simp add: applyPrivacyFilter_eq Let_def faceRegion_div)
qed

lemma putImageData_chan:
  assumes "dx \<le> u" "u < dx + image_width img" "dy \<le> v" "v < dy + image_height img"
    "u < canvas_width cv" "v < canvas_height cv" "c < 4"
  shows "chan c (bitmap (putImageData cv img dx dy) u v) =
     px (image_width img) (data img) (u - dx) (v - dy) c"
proof -
  from assms(7) consider "c = 0" | "c = 1" | "c = 2" | "c = 3" by linarith
  then show ?thesis
    using assms(1-6) by cases (simp_all add: putImageData_def chan_def px_def Let_def)
qed

lemma putImageData_outside:
  assumes "\<not> (dx \<le> u \<and> u < dx + image_width img \<and> dy \<le> v \<and> v < dy + image_height img)"
  shows "bitmap (putImageData cv img dx dy) u v = bitmap cv u v"
  using assms by (auto simp: putImageData_def)

lemma filtered_chan:
  assumes "inRegion (faceRegion (canvas_width cv) (canvas_height cv)) u v" "c < 4"
  shows "if c < 3
     then unat (chan c (bitmap (snd (applyPrivacyFilter cv)) u v)) =
       flooredMean (chan c) cv (blockCoords (faceRegion (canvas_width cv) (canvas_height cv)) u v)
     else chan c (bitmap (snd (applyPrivacyFilter cv)) u v) = chan c (bitmap cv u v)"
proof -
  define fr where "fr = faceRegion (canvas_width cv) (canvas_height cv)"
  define i j where "i = u - region_x fr" and "j = v - region_y fr"
  define d0 where "d0 = regionData cv (region_x fr) (region_y fr) (region_width fr) (region_height fr)"
  have r: "region_x fr \<le> u" "u < region_x fr + region_width fr"
      "region_y fr \<le> v" "v < region_y fr + region_height fr"
    using assms(1) by (simp_all add: inRegion_def fr_def)
  have ins: "region_x fr + region_width fr \<le> canvas_width cv"
      "region_y fr + region_height fr \<le> canvas_height cv"
    unfolding fr_def by (rule faceRegion_inside)+
  have ij: "i < region_width fr" "j < region_height fr" "u = region_x fr + i" "v = region_y fr + j"
    using r by (simp_all add: i_def j_def)
  have l0: "length d0 = region_width fr * region_height fr * 4"
    by (simp add: d0_def regionData_length)
  have f: "filtered cv = pixelate (region_width fr) (region_height fr) d0"
    by (simp add: filtered_def fr_def d0_def Let_def)
  have "chan c (bitmap (snd (applyPrivacyFilter cv)) u v) =
      px (region_width fr) (filtered cv) i j c"
    unfolding applyPrivacyFilter_eq Let_def fr_def [symmetric] i_def j_def
    using r ins assms(2) by (simp add: putImageData_chan)
  also have "\<dots> =
      (if c < 3 then clamp8 (blockMean (region_width fr) (region_height fr) d0 c (blk i) (blk j))
       else px (region_width fr) d0 i j c)"
    unfolding f using l0 ij(1,2) assms(2) by (rule pixelate_px)
  also have "px (region_width fr) d0 i j c = chan c (bitmap cv u v)"
    unfolding d0_def ij(3,4) using ij(1,2) assms(2) ins by (rule regionData_px)
  finally have res: "chan c (bitmap (snd (applyPrivacyFilter cv)) u v) =
      (if c < 3 then clamp8 (blockMean (region_width fr) (region_height fr) d0 c (blk i) (blk j))
       else chan c (bitmap cv u v))" .
  have m: "unat (clamp8 (blockMean (region_width fr) (region_height fr) d0 c (blk i) (blk j))) =
      blockMean (region_width fr) (region_height fr) d0 c (blk i) (blk j)"
    using blockMean_le [of "region_width fr" "region_height fr" d0 c "blk i" "blk j"]
    by (simp add: unat_clamp8)
  have "blockMean (region_width fr) (region_height fr) d0 c (blk i) (blk j) =
      flooredMean (chan c) cv (blockCoords fr u v)"
  proof -
    have "blockSum (region_width fr) (region_height fr) d0 c (blk i) (blk j) 0 =
        (\<Sum>l = 0..<clip (region_height fr) (blk j). \<Sum>k = 0..<clip (region_width fr) (blk i).
           unat (chan c (bitmap cv (region_x fr + blk i + k) (region_y fr + blk j + l))))"
      unfolding blockSum_def rowSum_def add_0_right
    proof (intro sum.cong refl arg_cong [where f = unat])
      fix l k assume "l \<in> {0..<clip (region_height fr) (blk j)}"
        "k \<in> {0..<clip (region_width fr) (blk i)}"
      then have b: "blk i + k < region_width fr" "blk j + l < region_height fr"
        by (simp_all add: clip_less)
      show "px (region_width fr) d0 (blk i + k) (blk j + l) c =
          chan c (bitmap cv (region_x fr + blk i + k) (region_y fr + blk j + l))"
        unfolding d0_def using regionData_px [OF b assms(2) ins] by (simp add: add.assoc)
    qed
    then show ?thesis
      unfolding blockMean_def flooredMean_def blockCoords_grid [OF assms(1) [folded fr_def]]
        sum_list_grid length_grid i_def j_def
      by simp
  qed
  with res m show ?thesis by (simp add: fr_def)
qed

lemma chan_fields: "chan 0 = red" "chan 1 = green" "chan 2 = blue" "chan 3 = alpha"
  by (simp_all add: chan_def fun_eq_iff)

lemma applyPrivacyFilter_size:
  "canvas_width (snd (applyPrivacyFilter cv)) = canvas_width cv"
  "canvas_height (snd (applyPrivacyFilter cv)) = canvas_height cv"
  by (simp_all add: applyPrivacyFilter_eq Let_def putImageData_def)

lemma applyPrivacyFilter_outside:
  assumes "\<not> inRegion (faceRegion (canvas_width cv) (canvas_height cv)) u v"
  shows "bitmap (snd (applyPrivacyFilter cv)) u v = bitmap cv u v"
  using assms by (simp add: applyPrivacyFilter_eq Let_def putImageData_outside inRegion_def)

lemma regionData_putImageData:
  assumes "length (data img) = image_width img * image_height img * 4"
    "dx + image_width img \<le> canvas_width cv" "dy + image_height img \<le> canvas_height cv"
  shows "regionData (putImageData cv img dx dy) dx dy (image_width img) (image_height img) = data img"
proof (rule nth_equalityI)
  show "length (regionData (putImageData cv img dx dy) dx dy (image_width img) (image_height img)) =
      length (data img)"
    using assms(1) by (simp add: regionData_length)
next
  fix n assume "n < length (regionData (putImageData cv img dx dy) dx dy (image_width img)
    (image_height img))"
  then have "n < image_width img * image_height img * 4" by (simp add: regionData_length)
  then obtain i j c where ijc: "i < image_width img" "j < image_height img" "c < 4"
    and n: "n = (j * image_width img + i) * 4 + c"
    by (rule idx_decomp)
  have s: "canvas_width (putImageData cv img dx dy) = canvas_width cv"
      "canvas_height (putImageData cv img dx dy) = canvas_height cv"
    by (simp_all add: putImageData_def)
  have "px (image_width img)
      (regionData (putImageData cv img dx dy) dx dy (image_width img) (image_height img)) i j c =
      chan c (bitmap (putImageData cv img dx dy) (dx + i) (dy + j))"
    using ijc assms(2,3) by (intro regionData_px) (simp_all add: s)
  also have "\<dots> = px (image_width img) (data img) (dx + i - dx) (dy + j - dy) c"
    using ijc assms(2,3) by (intro putImageData_chan) simp_all
  finally show "regionData (putImageData cv img dx dy) dx dy (image_width img) (image_height img) ! n =
      data img ! n"
    by (simp add: px_def n)
qed

lemma putImageData_twice:
  "putImageData (putImageData cv img dx dy) img dx dy = putImageData cv img dx dy"
  by (simp add: putImageData_def fun_eq_iff)

lemma applyPrivacyFilter_idem:
  "applyPrivacyFilter (snd (applyPrivacyFilter cv)) =
     (fst (applyPrivacyFilter cv), snd (applyPrivacyFilter cv))"
proof -
  define fr where "fr = faceRegion (canvas_width cv) (canvas_height cv)"
  show ?thesis
  proof (cases "region_width fr = 0 \<or> region_height fr = 0")
    case True
    then show ?thesis
      by (simp add: applyPrivacyFilter_eq Let_def fr_def)
  next
    case False
    define img where "img = \<lparr> image_width = region_width fr, image_height = region_height fr,
      data = filtered cv \<rparr>"
    define cv' where "cv' = putImageData cv img (region_x fr) (region_y fr)"
    have a: "applyPrivacyFilter cv = (Inr (), cv')"
      using False by (simp add: applyPrivacyFilter_eq Let_def fr_def cv'_def img_def)
    have s: "canvas_width cv' = canvas_width cv" "canvas_height cv' = canvas_height cv"
      by (simp_all add: cv'_def putImageData_def)
    have l: "length (data img) = image_width img * image_height img * 4"
      by (simp add: img_def filtered_def Let_def fr_def pixelate_length regionData_length)
    have ins: "region_x fr + image_width img \<le> canvas_width cv"
        "region_y fr + image_height img \<le> canvas_height cv"
      by (simp_all add: img_def fr_def faceRegion_inside)
    have g: "regionData cv' (region_x fr) (region_y fr) (region_width fr) (region_height fr) =
        filtered cv"
      using regionData_putImageData [OF l ins] by (simp add: cv'_def img_def)
    have "filtered cv' = pixelate (region_width fr) (region_height fr) (filtered cv)"
      by (simp add: filtered_def [of cv'] s fr_def [symmetric] g Let_def)
    also have "\<dots> = filtered cv"
      unfolding filtered_def [of cv] Let_def fr_def [symmetric]
      by (rule pixelate_idem) (simp add: regionData_length)
    finally have f: "filtered cv' = filtered cv" .
    have "applyPrivacyFilter cv' = (Inr (), putImageData cv' img (region_x fr) (region_y fr))"
      using False by (simp add: applyPrivacyFilter_eq [of cv'] s fr_def [symmetric] f img_def Let_def)
    also have "putImageData cv' img (region_x fr) (region_y fr) = cv'"
      unfolding cv'_def by (rule putImageData_twice)
    finally show ?thesis by (simp add: a)
  qed
qed

lemma grid_set:
  "(a, b) \<in> set (concat (map (\<lambda>v. map (\<lambda>u. (u, v)) [x0..<x1]) [y0..<y1])) \<longleftrightarrow>
     (x0 \<le> a \<and> a < x1) \<and> (y0 \<le> b \<and> b < y1)"
  by (auto simp: image_iff)

lemma blockCoords_set:
  assumes "inRegion fr u v"
  shows "(a, b) \<in> set (blockCoords fr u v) \<longleftrightarrow>
     inRegion fr a b \<and> blk (a - region_x fr) = blk (u - region_x fr) \<and>
     blk (b - region_y fr) = blk (v - region_y fr)"
proof -
  have g: "n \<le> w \<Longrightarrow> o' + blk n \<le> e \<and> e < o' + blk n + clip w (blk n) \<longleftrightarrow>
      (o' \<le> e \<and> e < o' + w) \<and> blk (e - o') = blk n" for n w o' e
  proof
    assume n: "n \<le> w" and "o' + blk n \<le> e \<and> e < o' + blk n + clip w (blk n)"
    then obtain k where k: "e = o' + (blk n + k)" "k < clip w (blk n)"
      by (metis add.assoc le_Suc_ex nat_add_left_cancel_less)
    then have "k < PIXELATION_SIZE" "blk n + k < w" by (simp_all add: clip_less)
    with k(1) show "(o' \<le> e \<and> e < o' + w) \<and> blk (e - o') = blk n"
      by (simp add: blk_blk)
  next
    assume n: "n \<le> w" and "(o' \<le> e \<and> e < o' + w) \<and> blk (e - o') = blk n"
    then have a: "o' \<le> e" "e < o' + w" "blk (e - o') = blk n" by simp_all
    have 1: "blk n \<le> e - o'" using blk_le [of "e - o'"] a(3) by simp
    have 2: "e - o' < blk n + PIXELATION_SIZE" using blk_less [of "e - o'"] a(3) by simp
    have 3: "e - o' < w" using a(1,2) by linarith
    have "e - o' - blk n < clip w (blk n)"
      unfolding clip_less using 1 2 3 by linarith
    then show "o' + blk n \<le> e \<and> e < o' + blk n + clip w (blk n)"
      using a(1) 1 by linarith
  qed
  have "u - region_x fr \<le> region_width fr" "v - region_y fr \<le> region_height fr"
    using assms unfolding inRegion_def by linarith+
  then show ?thesis
    unfolding blockCoords_grid [OF assms] grid_set inRegion_def
    using g [of "u - region_x fr" "region_width fr" "region_x fr" a]
      g [of "v - region_y fr" "region_height fr" "region_y fr" b]
    by blast
qed

lemma blockCoords_partition:
  assumes "inRegion fr u v"
  shows "(u, v) \<in> set (blockCoords fr u v)"
    and "(a, b) \<in> set (blockCoords fr u v) \<Longrightarrow>
      inRegion fr a b \<and> blockCoords fr a b = blockCoords fr u v"
proof -
  show "(u, v) \<in> set (blockCoords fr u v)"
    using assms by (simp add: blockCoords_set)
  assume m: "(a, b) \<in> set (blockCoords fr u v)"
  then have i: "inRegion fr a b" and e: "blk (a - region_x fr) = blk (u - region_x fr)"
      "blk (b - region_y fr) = blk (v - region_y fr)"
    using assms by (simp_all add: blockCoords_set)
  show "inRegion fr a b \<and> blockCoords fr a b = blockCoords fr u v"
    using i by (simp add: blockCoords_grid [OF i] blockCoords_grid [OF assms] e)
qed

definition testFrame :: "nat \<Rightarrow> nat \<Rightarrow> canvas" where
  "testFrame w h =
     \<lparr> canvas_width = w, canvas_height = h,
       bitmap = (\<lambda>u v. \<lparr> red = of_nat (u * v), green = of_nat (u + v), blue = of_nat u,
                         alpha = of_nat (200 + v) \<rparr>) \<rparr>"

text \<open>
  Claim C1. For every frame buffer, with block size 16: after \<open>applyPrivacyFilter\<close> every
  pixel of every block of the face region (edge blocks clipped to the region) has red,
  green and blue equal to the floored mean of that channel over the block's pixels before
  the filter; the alpha channel of every pixel is unchanged; and every pixel outside the
  region is identical to the input. When the region is empty the call throws before it
  writes, and the canvas afterwards is the canvas before.
\<close>

theorem applyPrivacyFilter_block_means:
  "let fr = faceRegion (canvas_width cv) (canvas_height cv);
       cv' = snd (applyPrivacyFilter cv)
   in (\<forall>u v. inRegion fr u v \<longrightarrow>
         unat (red (bitmap cv' u v)) = flooredMean red cv (blockCoords fr u v) \<and>
         unat (green (bitmap cv' u v)) = flooredMean green cv (blockCoords fr u v) \<and>
         unat (blue (bitmap cv' u v)) = flooredMean blue cv (blockCoords fr u v) \<and>
         alpha (bitmap cv' u v) = alpha (bitmap cv u v)) \<and>
      (\<forall>u v. \<not> inRegion fr u v \<longrightarrow> bitmap cv' u v = bitmap cv u v)"
proof -
  have "unat (red (bitmap (snd (applyPrivacyFilter cv)) u v)) =
        flooredMean red cv (blockCoords (faceRegion (canvas_width cv) (canvas_height cv)) u v) \<and>
      unat (green (bitmap (snd (applyPrivacyFilter cv)) u v)) =
        flooredMean green cv (blockCoords (faceRegion (canvas_width cv) (canvas_height cv)) u v) \<and>
      unat (blue (bitmap (snd (applyPrivacyFilter cv)) u v)) =
        flooredMean blue cv (blockCoords (faceRegion (canvas_width cv) (canvas_height cv)) u v) \<and>
      alpha (bitmap (snd (applyPrivacyFilter cv)) u v) = alpha (bitmap cv u v)"
    if r: "inRegion (faceRegion (canvas_width cv) (canvas_height cv)) u v" for u v
    using filtered_chan [OF r, of 0, unfolded chan_fields]
      filtered_chan [OF r, of 1, unfolded chan_fields]
      filtered_chan [OF r, of 2, unfolded chan_fields]
      filtered_chan [OF r, of 3, unfolded chan_fields]
    by simp
  then show ?thesis
    unfolding Let_def using applyPrivacyFilter_outside [of cv] by blast
qed

theorem applyPrivacyFilter_block_means_witness:
  "inRegion (faceRegion 40 40) 29 19 \<and>
   blockCoords (faceRegion 40 40) 29 19 =
     [(26, 18), (27, 18), (28, 18), (29, 18), (26, 19), (27, 19), (28, 19), (29, 19)] \<and>
   unat (red (bitmap (snd (applyPrivacyFilter (testFrame 40 40))) 29 19)) = 124 \<and>
   unat (green (bitmap (snd (applyPrivacyFilter (testFrame 40 40))) 29 19)) = 46 \<and>
   unat (blue (bitmap (snd (applyPrivacyFilter (testFrame 40 40))) 29 19)) = 27 \<and>
   alpha (bitmap (snd (applyPrivacyFilter (testFrame 40 40))) 29 19) = 219 \<and>
   \<not> inRegion (faceRegion 40 40) 30 19 \<and>
   bitmap (snd (applyPrivacyFilter (testFrame 40 40))) 30 19 = bitmap (testFrame 40 40) 30 19"
proof -
  have r: "inRegion (faceRegion 40 40) 29 19" "\<not> inRegion (faceRegion 40 40) 30 19"
    by (simp_all add: inRegion_def faceRegion_div)
  have b: "blockCoords (faceRegion 40 40) 29 19 =
      [(26, 18), (27, 18), (28, 18), (29, 18), (26, 19), (27, 19), (28, 19), (29, 19)]"
    by (simp add: blockCoords_def blockStart_def faceRegion_div Let_def upt_rec [of 18]
        upt_rec [of 19] upt_rec [of 26] upt_rec [of 27] upt_rec [of 28] upt_rec [of 29])
  have s: "canvas_width (testFrame 40 40) = 40" "canvas_height (testFrame 40 40) = 40"
    by (simp_all add: testFrame_def)
  note t = applyPrivacyFilter_block_means [of "testFrame 40 40", unfolded Let_def s]
  from t r(1) have i: "unat (red (bitmap (snd (applyPrivacyFilter (testFrame 40 40))) 29 19)) =
        flooredMean red (testFrame 40 40) (blockCoords (faceRegion 40 40) 29 19) \<and>
      unat (green (bitmap (snd (applyPrivacyFilter (testFrame 40 40))) 29 19)) =
        flooredMean green (testFrame 40 40) (blockCoords (faceRegion 40 40) 29 19) \<and>
      unat (blue (bitmap (snd (applyPrivacyFilter (testFrame 40 40))) 29 19)) =
        flooredMean blue (testFrame 40 40) (blockCoords (faceRegion 40 40) 29 19) \<and>
      alpha (bitmap (snd (applyPrivacyFilter (testFrame 40 40))) 29 19) =
        alpha (bitmap (testFrame 40 40) 29 19)"
    by blast
  from t r(2) have o:
    "bitmap (snd (applyPrivacyFilter (testFrame 40 40))) 30 19 = bitmap (testFrame 40 40) 30 19"
    by blast
  have m: "flooredMean red (testFrame 40 40)
        [(26, 18), (27, 18), (28, 18), (29, 18), (26, 19), (27, 19), (28, 19), (29, 19)] = 124"
      "flooredMean green (testFrame 40 40)
        [(26, 18), (27, 18), (28, 18), (29, 18), (26, 19), (27, 19), (28, 19), (29, 19)] = 46"
      "flooredMean blue (testFrame 40 40)
        [(26, 18), (27, 18), (28, 18), (29, 18), (26, 19), (27, 19), (28, 19), (29, 19)] = 27"
      "alpha (bitmap (testFrame 40 40) 29 19) = 219"
    by (simp_all add: flooredMean_def testFrame_def)
  from i o r b m show ?thesis by simp
qed

text \<open>
  Claim C5. Applying the filter twice to a frame buffer whose face region has width and
  height that are multiples of 16 gives the same frame buffer as applying it once: the
  second application changes no pixel. (\<open>applyPrivacyFilter_idem\<close> shows that the
  alignment is not needed.)
\<close>

theorem applyPrivacyFilter_idempotent_aligned:
  assumes "PIXELATION_SIZE dvd region_width (faceRegion (canvas_width cv) (canvas_height cv))"
    and "PIXELATION_SIZE dvd region_height (faceRegion (canvas_width cv) (canvas_height cv))"
  shows "snd (applyPrivacyFilter (snd (applyPrivacyFilter cv))) = snd (applyPrivacyFilter cv)"
  by (simp add: applyPrivacyFilter_idem)

theorem applyPrivacyFilter_idempotent_aligned_witness:
  "faceRegion 32 36 = \<lparr> region_x = 8, region_y = 1, region_width = 16, region_height = 16 \<rparr> \<and>
   PIXELATION_SIZE dvd region_width (faceRegion 32 36) \<and>
   PIXELATION_SIZE dvd region_height (faceRegion 32 36) \<and>
   snd (applyPrivacyFilter (snd (applyPrivacyFilter (testFrame 32 36)))) =
     snd (applyPrivacyFilter (testFrame 32 36))"
proof -
  have s: "canvas_width (testFrame 32 36) = 32" "canvas_height (testFrame 32 36) = 36"
    by (simp_all add: testFrame_def)
  have d: "PIXELATION_SIZE dvd region_width (faceRegion 32 36)"
      "PIXELATION_SIZE dvd region_height (faceRegion 32 36)"
    by (simp_all add: faceRegion_div PIXELATION_SIZE_def)
  from applyPrivacyFilter_idempotent_aligned [of "testFrame 32 36", unfolded s, OF d] d
  show ?thesis by (simp add: faceRegion_div)
qed

section \<open>Alert classification\<close>

text \<open>
  \<^verbatim>\<open>
  getAlertClass(issue) {
      if (issue.includes('Fall')) return 'alert-critical';
      if (issue.includes('Aggression')) return 'alert-warning';
      if (issue.includes('Risky')) return 'alert-caution';
      return 'alert-info';
  }
  \<close>
  \<open>String_includes s t\<close> is \<^verbatim>\<open>s.includes(t)\<close>: \<open>t\<close> occurs in \<open>s\<close> at some position.
  (\<open>includes\<close> is a keyword of Isabelle.) It agrees with \<open>sublist\<close> of the library.
\<close>


fun String_includes :: "string \<Rightarrow> string \<Rightarrow> bool" where
  "String_includes [] searchString = (searchString = [])"
| "String_includes (c # cs) searchString =
     (prefix searchString (c # cs) \<or> String_includes cs searchString)"

definition getAlertClass :: "string \<Rightarrow> string" where
  "getAlertClass issue =
     (if String_includes issue ''Fall'' then ''alert-critical''
      else if String_includes issue ''Aggression'' then ''alert-warning''
      else if String_includes issue ''Risky'' then ''alert-caution''
      else ''alert-info'')"

lemma includes_sublist: "String_includes s t \<longleftrightarrow> sublist t s"
proof (induction s)
  case Nil
  show ?case by auto
next
  case (Cons c cs)
  show ?case by (simp add: Cons.IH sublist_Cons_right)
qed

text \<open>
  Claim C8. Every issue string is classified as exactly one of critical, warning, caution
  and info, by substring tests in the order Fall, Aggression, Risky, with info when none
  matches; the first match wins, so an issue that contains both \<open>Fall\<close> and
  \<open>Aggression\<close> is critical.
\<close>

theorem getAlertClass_precedence:
  "getAlertClass issue \<in> {''alert-critical'', ''alert-warning'', ''alert-caution'', ''alert-info''} \<and>
   (getAlertClass issue = ''alert-critical'' \<longleftrightarrow> sublist ''Fall'' issue) \<and>
   (getAlertClass issue = ''alert-warning'' \<longleftrightarrow>
      \<not> sublist ''Fall'' issue \<and> sublist ''Aggression'' issue) \<and>
   (getAlertClass issue = ''alert-caution'' \<longleftrightarrow>
      \<not> sublist ''Fall'' issue \<and> \<not> sublist ''Aggression'' issue \<and> sublist ''Risky'' issue) \<and>
   (getAlertClass issue = ''alert-info'' \<longleftrightarrow>
      \<not> sublist ''Fall'' issue \<and> \<not> sublist ''Aggression'' issue \<and> \<not> sublist ''Risky'' issue) \<and>
   (sublist ''Fall'' issue \<and> sublist ''Aggression'' issue \<longrightarrow>
      getAlertClass issue = ''alert-critical'')"
  by (simp add: getAlertClass_def includes_sublist)

theorem getAlertClass_precedence_witness:
  "sublist ''Fall'' ''Aggression, then a Fall'' \<and>
   sublist ''Aggression'' ''Aggression, then a Fall'' \<and>
   getAlertClass ''Aggression, then a Fall'' = ''alert-critical''"
proof -
  have "String_includes ''Aggression, then a Fall'' ''Fall''"
    "String_includes ''Aggression, then a Fall'' ''Aggression''"
    by simp_all
  then have s: "sublist ''Fall'' ''Aggression, then a Fall''"
    "sublist ''Aggression'' ''Aggression, then a Fall''"
    by (simp_all only: includes_sublist)
  with getAlertClass_precedence [of "''Aggression, then a Fall''"] show ?thesis
    by blast
qed

section \<open>Indicators\<close>

text \<open>
  \<^verbatim>\<open>updateIndicators(results)\<close> (lines 212 to 295) writes four groups of elements. A
  group that is not complete on the page is skipped
  (\<^verbatim>\<open>if (fallCard && fallConfidence && fallStatus)\<close>), so each group is an option. The
  fields of \<open>results\<close> may be absent; \<open>truthy\<close>, \<open>or_number\<close> and \<open>or_string\<close> are
  JavaScript's truthiness and \<^verbatim>\<open>||\<close> on a boolean, a number and a string:
  \<^verbatim>\<open>
  if (results.fall_detected) {
      fallCard.classList.add('active-fall');
      fallStatus.textContent = 'FALL DETECTED!';
      fallStatus.style.color = 'var(--danger-color)';
  } else {
      fallCard.classList.remove('active-fall');
      fallStatus.textContent = 'No Fall Detected';
      fallStatus.style.color = '';
  }
  fallConfidence.style.width = `${(results.fall_confidence || 0) * 100}%`;
  fallConfidence.style.background =
      results.fall_detected ? 'var(--danger-color)' : 'var(--success-color)';
  ...
  const emotion = results.emotion || 'neutral';
  emotionIcon.innerHTML = emotionIcons[emotion] || emotionIcons['neutral'];
  emotionStatus.textContent = this.capitalizeFirst(emotion);
  emotionStatus.style.color = emotionColors[emotion];
  emotionConfidence.style.width = `${(results.emotion_confidence || 0.5) * 100}%`;
  emotionConfidence.style.background = emotionColors[emotion];
  \<close>
  Numbers are exact reals and a width \<^verbatim>\<open>`${n}%`\<close> is \<open>Percent n\<close>; on the values of the
  claims below (0.9, 0.5 and 0 times 100) the double product is the exact one.
  \<open>emotionIcons\<close> and \<open>emotionColors\<close> are object literals: a key they do not own is
  looked up in \<^verbatim>\<open>Object.prototype\<close> (\<open>Inherited\<close>) and is \<^verbatim>\<open>undefined\<close> otherwise.
  Assigning a value that is not a CSS colour to \<^verbatim>\<open>style.color\<close> leaves the property as
  it was (\<open>style_assign\<close>).

  The emotion comes from the server, so it is any JavaScript string: the list of its
  UTF-16 code units. The string literals of the source are ASCII and are written as HOL
  strings; \<open>lit s\<close> is the code units of the literal \<open>s\<close>. \<open>capitalizeFirst\<close> is
  \<^verbatim>\<open>str.charAt(0).toUpperCase() + str.slice(1)\<close>: \<^verbatim>\<open>charAt(0)\<close> is the first code unit
  (the empty string when there is none), and \<^verbatim>\<open>toUpperCase\<close> of that one-unit string is
  \<open>toUpperCase_unit\<close>. On an ASCII code unit it turns \<open>a\<close> to \<open>z\<close> into \<open>A\<close> to \<open>Z\<close> and
  keeps every other; outside ASCII it is the upper-case mapping of the engine's Unicode
  tables, which are not part of the sources and are the parameter \<open>unicode\<close> (a code
  unit to the string that replaces it: U+00E9 to U+00C9, U+00DF to \<open>SS\<close>, a lone surrogate
  to itself).
\<close>



type_synonym code_unit = "16 word"

type_synonym js_string = "code_unit list"

definition lit :: "string \<Rightarrow> js_string" where
  "lit s = map (\<lambda>c. of_nat (of_char c)) s"

record AnalysisResult =
  fall_detected :: "bool option"
  fall_confidence :: "real option"
  aggression :: "bool option"
  aggression_confidence :: "real option"
  risky_behavior :: "bool option"
  risky_confidence :: "real option"
  emotion :: "js_string option"
  emotion_confidence :: "real option"

definition truthy :: "bool option \<Rightarrow> bool" where
  "truthy v = (v = Some True)"

definition or_number :: "real option \<Rightarrow> real \<Rightarrow> real" where
  "or_number v dflt = (case v of None \<Rightarrow> dflt | Some n \<Rightarrow> if n = 0 then dflt else n)"

definition or_string :: "js_string option \<Rightarrow> js_string \<Rightarrow> js_string" where
  "or_string v dflt = (case v of None \<Rightarrow> dflt | Some s \<Rightarrow> if s = [] then dflt else s)"

datatype css_length = Percent real

record IndicatorCard =
  active :: bool
  statusText :: string
  statusColor :: string
  barWidth :: css_length
  barBackground :: string

datatype js_lookup = Undefined | Str string | Inherited js_string

definition Object_prototype :: "js_string list" where
  "Object_prototype =
     map lit
       [''constructor'', ''hasOwnProperty'', ''isPrototypeOf'', ''propertyIsEnumerable'',
        ''toLocaleString'', ''toString'', ''valueOf'', ''__proto__'', ''__defineGetter__'',
        ''__defineSetter__'', ''__lookupGetter__'', ''__lookupSetter__'']"

definition object_get :: "(js_string \<times> string) list \<Rightarrow> js_string \<Rightarrow> js_lookup" where
  "object_get obj k =
     (case map_of obj k of
        Some v \<Rightarrow> Str v
      | None \<Rightarrow> if k \<in> set Object_prototype then Inherited k else Undefined)"

definition emotionIcons :: "(js_string \<times> string) list" where
  "emotionIcons =
     [(lit ''happy'', ''&#128522;''), (lit ''sad'', ''&#128546;''), (lit ''angry'', ''&#128544;''),
      (lit ''scared'', ''&#128552;''), (lit ''neutral'', ''&#128528;'')]"

definition emotionColors :: "(js_string \<times> string) list" where
  "emotionColors =
     [(lit ''happy'', ''var(--success-color)''), (lit ''sad'', ''var(--info-color)''),
      (lit ''angry'', ''var(--danger-color)''), (lit ''scared'', ''var(--warning-color)''),
      (lit ''neutral'', ''var(--secondary-color)'')]"

definition or_lookup :: "js_lookup \<Rightarrow> js_lookup \<Rightarrow> js_lookup" where
  "or_lookup v dflt = (case v of Undefined \<Rightarrow> dflt | Str s \<Rightarrow> if s = [] then dflt else v
                      | Inherited k \<Rightarrow> v)"

definition style_assign :: "string \<Rightarrow> js_lookup \<Rightarrow> string" where
  "style_assign old v = (case v of Str s \<Rightarrow> s | _ \<Rightarrow> old)"

definition toUpperCase_unit :: "(code_unit \<Rightarrow> js_string) \<Rightarrow> code_unit \<Rightarrow> js_string" where
  "toUpperCase_unit unicode c =
     (if c < 128 then (if 97 \<le> c \<and> c \<le> 122 then [c - 32] else [c]) else unicode c)"

definition capitalizeFirst :: "(code_unit \<Rightarrow> js_string) \<Rightarrow> js_string \<Rightarrow> js_string" where
  "capitalizeFirst unicode str =
     (case str of [] \<Rightarrow> [] | c # cs \<Rightarrow> toUpperCase_unit unicode c @ cs)"

record EmotionCard =
  iconHTML :: js_lookup
  emotionText :: js_string
  emotionColor :: string
  emotionBarWidth :: css_length
  emotionBarBackground :: string

record Indicators =
  fallIndicator :: "IndicatorCard option"
  aggressionIndicator :: "IndicatorCard option"
  riskyIndicator :: "IndicatorCard option"
  emotionIndicator :: "EmotionCard option"

definition updateCard ::
  "bool \<Rightarrow> string \<Rightarrow> string \<Rightarrow> string \<Rightarrow> real \<Rightarrow> string \<Rightarrow> IndicatorCard \<Rightarrow> IndicatorCard" where
  "updateCard detected onText onColor offText confidence barColor elem =
     (if detected
      then elem \<lparr> active := True, statusText := onText, statusColor := onColor,
             barWidth := Percent (confidence * 100), barBackground := barColor \<rparr>
      else elem \<lparr> active := False, statusText := offText, statusColor := [],
             barWidth := Percent (confidence * 100), barBackground := ''var(--success-color)'' \<rparr>)"

definition updateIndicators ::
  "(code_unit \<Rightarrow> js_string) \<Rightarrow> AnalysisResult \<Rightarrow> Indicators \<Rightarrow> Indicators" where
  "updateIndicators unicode results doc =
     (let doc1 = doc \<lparr> fallIndicator := map_option
            (updateCard (truthy (fall_detected results)) ''FALL DETECTED!'' ''var(--danger-color)''
               ''No Fall Detected'' (or_number (fall_confidence results) 0) ''var(--danger-color)'')
            (fallIndicator doc) \<rparr>;
          doc2 = doc1 \<lparr> aggressionIndicator := map_option
            (updateCard (truthy (aggression results)) ''AGGRESSION DETECTED!''
               ''var(--warning-color)'' ''Normal Behavior''
               (or_number (aggression_confidence results) 0) ''var(--warning-color)'')
            (aggressionIndicator doc1) \<rparr>;
          doc3 = doc2 \<lparr> riskyIndicator := map_option
            (updateCard (truthy (risky_behavior results)) ''RISKY BEHAVIOR!'' ''#eab308''
               ''Safe Position'' (or_number (risky_confidence results) 0) ''#eab308'')
            (riskyIndicator doc2) \<rparr>
      in doc3 \<lparr> emotionIndicator := map_option
            (\<lambda>elem.
               let emotion = or_string (emotion results) (lit ''neutral'')
               in elem \<lparr> iconHTML := or_lookup (object_get emotionIcons emotion)
                                     (object_get emotionIcons (lit ''neutral'')),
                         emotionText := capitalizeFirst unicode emotion,
                         emotionColor := style_assign (emotionColor elem)
                                           (object_get emotionColors emotion),
                         emotionBarWidth := Percent (or_number (emotion_confidence results) 0.5 * 100),
                         emotionBarBackground := style_assign (emotionBarBackground elem)
                                                   (object_get emotionColors emotion) \<rparr>)
            (emotionIndicator doc3) \<rparr>)"


text \<open>
  An analysis result with every field absent, a page with all four groups, and a case
  table that keeps every code unit. The worked instances below use ASCII values only,
  where the table is not consulted.
\<close>

definition keepCase :: "code_unit \<Rightarrow> js_string" where
  "keepCase c = [c]"

definition noResult :: AnalysisResult where
  "noResult = \<lparr> fall_detected = None, fall_confidence = None, aggression = None,
     aggression_confidence = None, risky_behavior = None, risky_confidence = None,
     emotion = None, emotion_confidence = None \<rparr>"

definition testPage :: Indicators where
  "testPage =
     \<lparr> fallIndicator = Some \<lparr> active = False, statusText = ''No Fall Detected'', statusColor = [],
         barWidth = Percent 0, barBackground = [] \<rparr>,
       aggressionIndicator = Some \<lparr> active = False, statusText = ''Normal Behavior'',
         statusColor = [], barWidth = Percent 0, barBackground = [] \<rparr>,
       riskyIndicator = Some \<lparr> active = False, statusText = ''Safe Position'', statusColor = [],
         barWidth = Percent 0, barBackground = [] \<rparr>,
       emotionIndicator = Some \<lparr> iconHTML = Str ''&#128528;'', emotionText = lit ''Neutral'',
         emotionColor = [], emotionBarWidth = Percent 0, emotionBarBackground = [] \<rparr> \<rparr>"

lemma lit_eq_iff [simp]: "lit a = lit b \<longleftrightarrow> a = b"
proof -
  have "inj (\<lambda>c::char. (of_nat (of_char c) :: code_unit))"
  proof (rule injI)
    fix c d :: char
    assume "(of_nat (of_char c) :: code_unit) = of_nat (of_char d)"
    then have "unat (of_nat (of_char c) :: code_unit) = unat (of_nat (of_char d) :: code_unit)"
      by simp
    moreover have "(of_char e :: nat) < 65536" for e :: char
      using nat_of_char_less_256 [of e] by linarith
    ultimately have "(of_char c :: nat) = of_char d"
      by (simp add: unat_of_nat)
    then show "c = d" by simp
  qed
  then show ?thesis
    unfolding lit_def by (rule inj_map_eq_map)
qed

lemma lit_Nil_iff [simp]: "lit s = [] \<longleftrightarrow> s = []" "[] = lit s \<longleftrightarrow> s = []"
  by (auto simp: lit_def)

lemma capitalizeFirst_neutral: "capitalizeFirst unicode (lit ''neutral'') = lit ''Neutral''"
  by (simp add: capitalizeFirst_def lit_def toUpperCase_unit_def)

text \<open>
  Claim C6. For the result \<open>{fall_detected: true, fall_confidence: 0.9}\<close> with every other
  field absent, \<open>updateIndicators\<close> makes the fall indicator active with bar fill 90%,
  leaves aggression and risky inactive with bar fill 0%, and shows the emotion
  \<open>neutral\<close> (the text is \<open>capitalizeFirst\<close> of \<open>neutral\<close>, that is \<open>Neutral\<close>, whatever
  the case table) with bar fill 50%.
\<close>

theorem updateIndicators_fall_only:
  assumes "fallIndicator doc = Some fc" and "aggressionIndicator doc = Some ac"
    and "riskyIndicator doc = Some rc" and "emotionIndicator doc = Some ec"
  shows "updateIndicators unicode
       (noResult \<lparr> fall_detected := Some True, fall_confidence := Some 0.9 \<rparr>) doc =
     \<lparr> fallIndicator = Some (fc \<lparr> active := True, statusText := ''FALL DETECTED!'',
         statusColor := ''var(--danger-color)'', barWidth := Percent 90,
         barBackground := ''var(--danger-color)'' \<rparr>),
       aggressionIndicator = Some (ac \<lparr> active := False, statusText := ''Normal Behavior'',
         statusColor := [], barWidth := Percent 0, barBackground := ''var(--success-color)'' \<rparr>),
       riskyIndicator = Some (rc \<lparr> active := False, statusText := ''Safe Position'',
         statusColor := [], barWidth := Percent 0, barBackground := ''var(--success-color)'' \<rparr>),
       emotionIndicator = Some (ec \<lparr> iconHTML := Str ''&#128528;'',
         emotionText := capitalizeFirst unicode (lit ''neutral''),
         emotionColor := ''var(--secondary-color)'', emotionBarWidth := Percent 50,
         emotionBarBackground := ''var(--secondary-color)'' \<rparr>) \<rparr>"
  using assms
  by (simp add: updateIndicators_def noResult_def updateCard_def truthy_def or_number_def
      or_string_def or_lookup_def object_get_def emotionIcons_def emotionColors_def
      style_assign_def Let_def)

theorem updateIndicators_fall_only_witness:
  "fallIndicator testPage \<noteq> None \<and> aggressionIndicator testPage \<noteq> None \<and>
   riskyIndicator testPage \<noteq> None \<and> emotionIndicator testPage \<noteq> None \<and>
   map_option (\<lambda>c. (active c, barWidth c))
     (fallIndicator (updateIndicators keepCase
        (noResult \<lparr> fall_detected := Some True, fall_confidence := Some 0.9 \<rparr>) testPage)) =
     Some (True, Percent 90) \<and>
   map_option (\<lambda>c. (active c, barWidth c))
     (aggressionIndicator (updateIndicators keepCase
        (noResult \<lparr> fall_detected := Some True, fall_confidence := Some 0.9 \<rparr>) testPage)) =
     Some (False, Percent 0) \<and>
   map_option (\<lambda>c. (active c, barWidth c))
     (riskyIndicator (updateIndicators keepCase
        (noResult \<lparr> fall_detected := Some True, fall_confidence := Some 0.9 \<rparr>) testPage)) =
     Some (False, Percent 0) \<and>
   map_option (\<lambda>c. (emotionText c, emotionBarWidth c))
     (emotionIndicator (updateIndicators keepCase
        (noResult \<lparr> fall_detected := Some True, fall_confidence := Some 0.9 \<rparr>) testPage)) =
     Some (lit ''Neutral'', Percent 50)"
proof -
  obtain fc ac rc ec where p: "fallIndicator testPage = Some fc"
      "aggressionIndicator testPage = Some ac" "riskyIndicator testPage = Some rc"
      "emotionIndicator testPage = Some ec"
    by (simp add: testPage_def)
  from updateIndicators_fall_only [OF p, of keepCase] p show ?thesis
    by (simp add: capitalizeFirst_neutral)
qed

lemma updateCard_barWidth:
  "barWidth (updateCard detected onText onColor offText confidence barColor elem) =
     Percent (confidence * 100)"
  by (simp add: updateCard_def)

text \<open>
  Claim C10. An \<open>emotion_confidence\<close> that is present and exactly 0 gives the emotion bar
  the fill 50%, as an absent one does, because \<^verbatim>\<open>||\<close> takes 0 for false; a fall,
  aggression or risky confidence of exactly 0 gives the fill 0%. (Each equation reads:
  where the bar is on the page, its width after the update is the one stated.)
\<close>

theorem emotion_confidence_zero:
  "map_option emotionBarWidth
     (emotionIndicator (updateIndicators unicode (r \<lparr> emotion_confidence := Some 0 \<rparr>) doc)) =
     map_option (\<lambda>_. Percent 50) (emotionIndicator doc) \<and>
   map_option emotionBarWidth
     (emotionIndicator (updateIndicators unicode (r \<lparr> emotion_confidence := None \<rparr>) doc)) =
     map_option (\<lambda>_. Percent 50) (emotionIndicator doc) \<and>
   map_option barWidth
     (fallIndicator (updateIndicators unicode (r \<lparr> fall_confidence := Some 0 \<rparr>) doc)) =
     map_option (\<lambda>_. Percent 0) (fallIndicator doc) \<and>
   map_option barWidth
     (aggressionIndicator (updateIndicators unicode (r \<lparr> aggression_confidence := Some 0 \<rparr>) doc)) =
     map_option (\<lambda>_. Percent 0) (aggressionIndicator doc) \<and>
   map_option barWidth
     (riskyIndicator (updateIndicators unicode (r \<lparr> risky_confidence := Some 0 \<rparr>) doc)) =
     map_option (\<lambda>_. Percent 0) (riskyIndicator doc)"
  by (simp add: updateIndicators_def updateCard_barWidth or_number_def Let_def option.map_comp
      comp_def)

text \<open>The five emotion values the claims name.\<close>

definition recognised :: "js_string list" where
  "recognised = map lit [''happy'', ''sad'', ''angry'', ''scared'', ''neutral'']"

text \<open>
  Claim C7 says that an emotion that is absent or not one of happy, sad, angry, scared and
  neutral is shown with the neutral label, icon and colour. The value \<open>surprised\<close> is
  shown as \<open>Surprised\<close> (with the neutral icon); the value \<open>toString\<close>, a member that
  the icon table inherits, is shown as \<open>ToString\<close> and the icon is not the neutral one.
\<close>

theorem unrecognised_emotion_label:
  "lit ''surprised'' \<notin> set recognised \<and>
   map_option emotionText
     (emotionIndicator (updateIndicators keepCase (noResult \<lparr> emotion := Some (lit ''surprised'') \<rparr>)
        testPage)) =
     Some (lit ''Surprised'') \<and>
   capitalizeFirst keepCase (lit ''neutral'') = lit ''Neutral'' \<and>
   map_option emotionText
     (emotionIndicator (updateIndicators keepCase (noResult \<lparr> emotion := Some (lit ''surprised'') \<rparr>)
        testPage)) \<noteq>
     Some (capitalizeFirst keepCase (lit ''neutral'')) \<and>
   lit ''toString'' \<notin> set recognised \<and>
   map_option (\<lambda>c. (iconHTML c, emotionText c))
     (emotionIndicator (updateIndicators keepCase (noResult \<lparr> emotion := Some (lit ''toString'') \<rparr>)
        testPage)) =
     Some (Inherited (lit ''toString''), lit ''ToString'')"
proof -
  have c: "capitalizeFirst keepCase (lit ''surprised'') = lit ''Surprised''"
      "capitalizeFirst keepCase (lit ''toString'') = lit ''ToString''"
    by (simp_all add: capitalizeFirst_def lit_def toUpperCase_unit_def)
  have o: "object_get emotionIcons (lit ''toString'') = Inherited (lit ''toString'')"
    by (simp add: object_get_def emotionIcons_def Object_prototype_def)
  show ?thesis
    by (simp add: recognised_def updateIndicators_def noResult_def testPage_def or_string_def
        Let_def c o capitalizeFirst_neutral or_lookup_def)
qed

lemma object_get_recognised:
  assumes "e \<in> set recognised"
  shows "or_lookup (object_get emotionIcons e) (object_get emotionIcons (lit ''neutral'')) =
      object_get emotionIcons e"
    and "\<exists>icon. object_get emotionIcons e = Str icon"
    and "\<exists>colour. object_get emotionColors e = Str colour \<and>
      style_assign old (object_get emotionColors e) = colour"
  using assms
  by (auto simp: recognised_def object_get_def emotionIcons_def emotionColors_def or_lookup_def
      style_assign_def)

lemma object_get_unrecognised:
  assumes "e \<notin> set recognised" and "e \<notin> set Object_prototype"
  shows "or_lookup (object_get emotionIcons e) (object_get emotionIcons (lit ''neutral'')) =
      Str ''&#128528;''"
proof -
  have "map_of emotionIcons e = None"
    using assms(1) by (simp add: emotionIcons_def recognised_def)
  then have "object_get emotionIcons e = Undefined"
    using assms(2) by (simp add: object_get_def)
  moreover have "object_get emotionIcons (lit ''neutral'') = Str ''&#128528;''"
    by (simp add: object_get_def emotionIcons_def)
  ultimately show ?thesis by (simp add: or_lookup_def)
qed

text \<open>
  Claim C7, amended. The label shown is the emotion with its first letter capitalised
  (\<open>capitalizeFirst\<close>: the first code unit in upper case, the rest as it is), where the
  emotion is \<open>neutral\<close> whenever the field is absent or the empty string; then the label
  is \<open>Neutral\<close> and the icon and the colours are those of neutral. For the five
  recognised values the icon and the colours are those of the value. An unrecognised
  non-empty value is shown under its own capitalised label, and with the neutral icon
  unless it names a member that the icon table inherits from \<^verbatim>\<open>Object.prototype\<close>.
\<close>

theorem emotion_label_shown:
  assumes "emotionIndicator doc = Some ec"
  shows "(emotion r = None \<or> emotion r = Some [] \<longrightarrow>
            map_option (\<lambda>c. (iconHTML c, emotionText c, emotionColor c, emotionBarBackground c))
              (emotionIndicator (updateIndicators unicode r doc)) =
            Some (Str ''&#128528;'', lit ''Neutral'', ''var(--secondary-color)'',
                  ''var(--secondary-color)'')) \<and>
         (\<forall>e. emotion r = Some e \<and> e \<in> set recognised \<longrightarrow>
            map_option (\<lambda>c. (iconHTML c, emotionText c, Str (emotionColor c),
                             Str (emotionBarBackground c)))
              (emotionIndicator (updateIndicators unicode r doc)) =
            Some (object_get emotionIcons e, capitalizeFirst unicode e,
                  object_get emotionColors e, object_get emotionColors e)) \<and>
         (\<forall>e. emotion r = Some e \<and> e \<noteq> [] \<longrightarrow>
            map_option emotionText (emotionIndicator (updateIndicators unicode r doc)) =
            Some (capitalizeFirst unicode e)) \<and>
         (\<forall>e. emotion r = Some e \<and> e \<noteq> [] \<and> e \<notin> set recognised \<and>
              e \<notin> set Object_prototype \<longrightarrow>
            map_option iconHTML (emotionIndicator (updateIndicators unicode r doc)) =
            Some (Str ''&#128528;''))"
proof (intro conjI allI impI)
  assume "emotion r = None \<or> emotion r = Some []"
  then have "or_string (emotion r) (lit ''neutral'') = lit ''neutral''"
    by (auto simp: or_string_def)
  then show "map_option (\<lambda>c. (iconHTML c, emotionText c, emotionColor c, emotionBarBackground c))
      (emotionIndicator (updateIndicators unicode r doc)) =
      Some (Str ''&#128528;'', lit ''Neutral'', ''var(--secondary-color)'',
        ''var(--secondary-color)'')"
    using assms
    by (simp add: updateIndicators_def Let_def capitalizeFirst_neutral object_get_def
        emotionIcons_def emotionColors_def or_lookup_def style_assign_def)
next
  fix e assume a: "emotion r = Some e \<and> e \<in> set recognised"
  then have n: "e \<noteq> []" by (auto simp: recognised_def)
  then have o: "or_string (Some e) (lit ''neutral'') = e"
    by (simp add: or_string_def)
  from a obtain colour where c: "object_get emotionColors e = Str colour"
    using object_get_recognised(3) by blast
  show "map_option (\<lambda>c. (iconHTML c, emotionText c, Str (emotionColor c),
        Str (emotionBarBackground c))) (emotionIndicator (updateIndicators unicode r doc)) =
      Some (object_get emotionIcons e, capitalizeFirst unicode e, object_get emotionColors e,
        object_get emotionColors e)"
    using assms a object_get_recognised(1) [of e]
    by (simp add: updateIndicators_def Let_def o c style_assign_def)
next
  fix e assume a: "emotion r = Some e \<and> e \<noteq> []"
  then have o: "or_string (Some e) (lit ''neutral'') = e"
    by (simp add: or_string_def)
  show "map_option emotionText (emotionIndicator (updateIndicators unicode r doc)) =
      Some (capitalizeFirst unicode e)"
    using assms a by (simp add: updateIndicators_def Let_def o)
next
  fix e assume a: "emotion r = Some e \<and> e \<noteq> [] \<and> e \<notin> set recognised \<and>
      e \<notin> set Object_prototype"
  then have o: "or_string (Some e) (lit ''neutral'') = e"
    by (simp add: or_string_def)
  from a have i: "or_lookup (object_get emotionIcons e) (object_get emotionIcons (lit ''neutral'')) =
      Str ''&#128528;''"
    by (simp add: object_get_unrecognised)
  show "map_option iconHTML (emotionIndicator (updateIndicators unicode r doc)) =
      Some (Str ''&#128528;'')"
    using assms a by (simp add: updateIndicators_def Let_def o i)
qed

theorem emotion_label_shown_witness:
  "emotionIndicator testPage \<noteq> None \<and>
   emotion noResult = None \<and>
   map_option (\<lambda>c. (iconHTML c, emotionText c, emotionColor c, emotionBarBackground c))
     (emotionIndicator (updateIndicators keepCase noResult testPage)) =
     Some (Str ''&#128528;'', lit ''Neutral'', ''var(--secondary-color)'',
       ''var(--secondary-color)'') \<and>
   lit ''angry'' \<in> set recognised \<and>
   map_option (\<lambda>c. (iconHTML c, emotionText c, emotionColor c))
     (emotionIndicator (updateIndicators keepCase (noResult \<lparr> emotion := Some (lit ''angry'') \<rparr>)
        testPage)) =
     Some (Str ''&#128544;'', lit ''Angry'', ''var(--danger-color)'') \<and>
   lit ''surprised'' \<noteq> [] \<and> lit ''surprised'' \<notin> set recognised \<and>
   lit ''surprised'' \<notin> set Object_prototype \<and>
   map_option (\<lambda>c. (iconHTML c, emotionText c))
     (emotionIndicator (updateIndicators keepCase (noResult \<lparr> emotion := Some (lit ''surprised'') \<rparr>)
        testPage)) =
     Some (Str ''&#128528;'', lit ''Surprised'')"
proof -
  obtain ec where p: "emotionIndicator testPage = Some ec"
    by (simp add: testPage_def)
  have n: "emotion noResult = None" by (simp add: noResult_def)
  have a: "emotion (noResult \<lparr> emotion := Some (lit ''angry'') \<rparr>) = Some (lit ''angry'') \<and>
      lit ''angry'' \<in> set recognised"
    by (simp add: recognised_def)
  have s: "emotion (noResult \<lparr> emotion := Some (lit ''surprised'') \<rparr>) = Some (lit ''surprised'') \<and>
      lit ''surprised'' \<noteq> []"
    by simp
  have u: "emotion (noResult \<lparr> emotion := Some (lit ''surprised'') \<rparr>) = Some (lit ''surprised'') \<and>
      lit ''surprised'' \<noteq> [] \<and> lit ''surprised'' \<notin> set recognised \<and>
      lit ''surprised'' \<notin> set Object_prototype"
    by (simp add: recognised_def Object_prototype_def)
  have v: "object_get emotionIcons (lit ''angry'') = Str ''&#128544;''"
      "object_get emotionColors (lit ''angry'') = Str ''var(--danger-color)''"
      "capitalizeFirst keepCase (lit ''angry'') = lit ''Angry''"
      "capitalizeFirst keepCase (lit ''surprised'') = lit ''Surprised''"
    by (simp_all add: object_get_def emotionIcons_def emotionColors_def)
      (simp_all add: capitalizeFirst_def lit_def toUpperCase_unit_def)
  note t1 = emotion_label_shown [OF p, of noResult keepCase, THEN conjunct1, rule_format,
      OF disjI1, OF n]
  note t2 = emotion_label_shown [OF p, of "noResult \<lparr> emotion := Some (lit ''angry'') \<rparr>" keepCase,
      THEN conjunct2, THEN conjunct1, rule_format, OF a]
  note t3 = emotion_label_shown [OF p, of "noResult \<lparr> emotion := Some (lit ''surprised'') \<rparr>"
      keepCase, THEN conjunct2, THEN conjunct2, THEN conjunct1, rule_format, OF s]
  note t4 = emotion_label_shown [OF p, of "noResult \<lparr> emotion := Some (lit ''surprised'') \<rparr>"
      keepCase, THEN conjunct2, THEN conjunct2, THEN conjunct2, rule_format, OF u]
  from t1 t2 t3 t4 p n a u show ?thesis
    unfolding v by (auto simp: option.map_comp comp_def split: option.splits)
qed


section \<open>The application object\<close>

text \<open>
  \<open>app\<close> holds the fields of \<^verbatim>\<open>PatientMonitoringApp\<close> that the methods below read or
  write, the elements of the page they touch, and the log of what the object did to its
  environment (\<open>effects\<close>, in order). An element that \<^verbatim>\<open>getElementById\<close> may not find is
  an option; using a missing one throws \<^verbatim>\<open>TypeError\<close>. \<open>overlay\<close> is whether the overlay
  has the class \<^verbatim>\<open>hidden\<close>, \<open>startBtn\<close> and \<open>stopBtn\<close> are the \<^verbatim>\<open>disabled\<close> flags, and
  the canvas has a drawing context whenever it exists. A status badge that exists has its
  dot and its label.

  What the browser computes is a parameter: \<open>drawImage br frame dw dh x y\<close> is the pixel
  at \<open>(x, y)\<close> of \<open>frame\<close> scaled to \<open>dw\<close> by \<open>dh\<close>, and \<open>toDataURL br cv\<close> is the JPEG data
  URL of a canvas, and \<open>upperCase br\<close> is the case table of \<open>capitalizeFirst\<close>. What the
  environment answers to a call that is awaited is an argument of the method: the
  promise is fulfilled (\<open>Inr\<close>) or rejected (\<open>Inl\<close>).

  A method is an \<open>action\<close>: from the object before to an outcome (a value, or the error
  thrown) and the object after. \<open>statements\<close> runs a block, stopping at the first throw.
  Other tasks that run while a method waits at an \<^verbatim>\<open>await\<close> are not modelled.
\<close>


datatype MediaStream = MediaStream nat

record VideoElement =
  srcObject :: "MediaStream option"
  videoWidth :: nat
  videoHeight :: nat
  currentFrame :: canvas

record StatusBadge =
  dotBackground :: string
  labelText :: string

datatype request_body = NoBody | ImageBody string

datatype effect =
    GetUserMedia
  | Play
  | StopTracks MediaStream
  | SetInterval nat
  | ClearInterval nat
  | RequestAnimationFrame
  | Fetch string string request_body
  | ConsoleError string
  | Alert string

record app =
  video :: "VideoElement option"
  canvas :: "canvas option"
  overlay :: "bool option"
  startBtn :: "bool option"
  stopBtn :: "bool option"
  isMonitoring :: bool
  stream :: "MediaStream option"
  analysisInterval :: "nat option"
  systemStatus :: "StatusBadge option"
  indicators :: Indicators
  effects :: "effect list"

record browser =
  drawImage :: "canvas \<Rightarrow> nat \<Rightarrow> nat \<Rightarrow> nat \<Rightarrow> nat \<Rightarrow> pixel"
  toDataURL :: "canvas \<Rightarrow> string"
  upperCase :: "code_unit \<Rightarrow> js_string"

type_synonym 'a action = "app \<Rightarrow> (js_error + 'a) \<times> app"

definition return :: "'a \<Rightarrow> 'a action" where
  "return v s = (Inr v, s)"

definition throw :: "js_error \<Rightarrow> 'a action" where
  "throw e s = (Inl e, s)"

definition bind :: "'a action \<Rightarrow> ('a \<Rightarrow> 'b action) \<Rightarrow> 'b action" where
  "bind m f s = (case m s of (Inl e, s') \<Rightarrow> (Inl e, s') | (Inr v, s') \<Rightarrow> f v s')"

fun statements :: "unit action list \<Rightarrow> unit action" where
  "statements [] = return ()"
| "statements (m # ms) = bind m (\<lambda>_. statements ms)"

definition try_catch :: "unit action \<Rightarrow> (js_error \<Rightarrow> unit action) \<Rightarrow> unit action" where
  "try_catch m handler s = (case m s of (Inl e, s') \<Rightarrow> handler e s' | (Inr v, s') \<Rightarrow> (Inr v, s'))"

definition modify :: "(app \<Rightarrow> app) \<Rightarrow> unit action" where
  "modify f s = (Inr (), f s)"

definition emit :: "effect \<Rightarrow> unit action" where
  "emit e = modify (\<lambda>s. s \<lparr> effects := effects s @ [e] \<rparr>)"

definition await :: "effect \<Rightarrow> (js_error + 'a) \<Rightarrow> 'a action" where
  "await e settled = bind (emit e) (\<lambda>_. case settled of Inl err \<Rightarrow> throw err | Inr v \<Rightarrow> return v)"

definition element :: "(app \<Rightarrow> 'a option) \<Rightarrow> 'a action" where
  "element get s = (case get s of None \<Rightarrow> (Inl TypeError, s) | Some el \<Rightarrow> (Inr el, s))"

definition or_nat :: "nat \<Rightarrow> nat \<Rightarrow> nat" where
  "or_nat v dflt = (if v = 0 then dflt else v)"

definition blank :: pixel where
  "blank = \<lparr> red = 0, green = 0, blue = 0, alpha = 0 \<rparr>"

definition updateStatusBadge :: "string \<Rightarrow> bool \<Rightarrow> unit action" where
  "updateStatusBadge text isActive =
     modify (\<lambda>s. s \<lparr> systemStatus := map_option
       (\<lambda>badge. badge \<lparr> dotBackground :=
                            (if isActive then ''var(--success-color)'' else ''var(--secondary-color)''),
                          labelText := text \<rparr>)
       (systemStatus s) \<rparr>)"

text \<open>
  \<^verbatim>\<open>
  renderFrame() {
      if (!this.isMonitoring || !this.ctx) return;
      this.ctx.drawImage(this.video, 0, 0, this.canvas.width, this.canvas.height);
      this.applyPrivacyFilter();
      requestAnimationFrame(() => this.renderFrame());
  }
  \<close>
\<close>

definition ctx_drawImage :: "browser \<Rightarrow> unit action" where
  "ctx_drawImage br =
     bind (element canvas) (\<lambda>cv.
     bind (element video) (\<lambda>v.
       modify (\<lambda>s. s \<lparr> canvas := Some (cv \<lparr> bitmap :=
         (\<lambda>x y. if x < canvas_width cv \<and> y < canvas_height cv
                then drawImage br (currentFrame v) (canvas_width cv) (canvas_height cv) x y
                else bitmap cv x y) \<rparr>) \<rparr>)))"

definition this_applyPrivacyFilter :: "unit action" where
  "this_applyPrivacyFilter =
     bind (element canvas) (\<lambda>cv s.
       case applyPrivacyFilter cv of (outcome, cv') \<Rightarrow> (outcome, s \<lparr> canvas := Some cv' \<rparr>))"

definition renderFrame :: "browser \<Rightarrow> unit action" where
  "renderFrame br s =
     (if \<not> isMonitoring s \<or> canvas s = None then (Inr (), s)
      else statements
        [ctx_drawImage br,
         this_applyPrivacyFilter,
         emit RequestAnimationFrame] s)"

text \<open>
  \<^verbatim>\<open>
  async startMonitoring() {
      try {
          this.stream = await navigator.mediaDevices.getUserMedia({ ... });
          this.video.srcObject = this.stream;
          await this.video.play();
          this.canvas.width = this.video.videoWidth || 640;
          this.canvas.height = this.video.videoHeight || 480;
          this.isMonitoring = true;
          this.overlay.classList.add('hidden');
          this.startBtn.disabled = true;
          this.stopBtn.disabled = false;
          this.updateStatusBadge('Monitoring Active', true);
          this.renderFrame();
          this.analysisInterval = setInterval(() => { this.analyzeFrame(); },
                                              this.ANALYSIS_INTERVAL);
          await fetch('/api/status/toggle', { method: 'POST' });
      } catch (error) {
          console.error('Error starting monitoring:', error);
          this.showError('Could not access camera. ...');
      }
  }
  \<close>
  \<open>start_env\<close> is what the environment answers during one call: the device request, the
  playback (with the size and first frame the video then reports), the handle that
  \<^verbatim>\<open>setInterval\<close> returns and the toggle request. Setting the width or height of a canvas
  clears it.
\<close>

record start_env =
  userMedia :: "js_error + MediaStream"
  played :: "js_error + nat \<times> nat \<times> canvas"
  timer :: nat
  toggled :: "js_error + unit"

definition showError :: "string \<Rightarrow> unit action" where
  "showError message = emit (Alert message)"

definition startMonitoring :: "browser \<Rightarrow> start_env \<Rightarrow> unit action" where
  "startMonitoring br env =
     try_catch
       (bind (await GetUserMedia (userMedia env)) (\<lambda>acquired.
        statements
          [modify (\<lambda>s. s \<lparr> stream := Some acquired \<rparr>),
           bind (element video) (\<lambda>v.
             modify (\<lambda>s. s \<lparr> video := Some (v \<lparr> srcObject := Some acquired \<rparr>) \<rparr>)),
           bind (await Play (played env)) (\<lambda>(vw, vh, frame).
             modify (\<lambda>s. s \<lparr> video := map_option
               (\<lambda>v. v \<lparr> videoWidth := vw, videoHeight := vh, currentFrame := frame \<rparr>)
               (video s) \<rparr>)),
           bind (element canvas) (\<lambda>cv.
           bind (element video) (\<lambda>v.
             modify (\<lambda>s. s \<lparr> canvas := Some
               \<lparr> canvas_width = or_nat (videoWidth v) 640,
                 canvas_height = or_nat (videoHeight v) 480,
                 bitmap = (\<lambda>x y. blank) \<rparr> \<rparr>))),
           modify (\<lambda>s. s \<lparr> isMonitoring := True \<rparr>),
           bind (element overlay) (\<lambda>_. modify (\<lambda>s. s \<lparr> overlay := Some True \<rparr>)),
           bind (element startBtn) (\<lambda>_. modify (\<lambda>s. s \<lparr> startBtn := Some True \<rparr>)),
           bind (element stopBtn) (\<lambda>_. modify (\<lambda>s. s \<lparr> stopBtn := Some False \<rparr>)),
           updateStatusBadge ''Monitoring Active'' True,
           renderFrame br,
           bind (emit (SetInterval 500)) (\<lambda>_.
             modify (\<lambda>s. s \<lparr> analysisInterval := Some (timer env) \<rparr>)),
           await (Fetch ''/api/status/toggle'' ''POST'' NoBody) (toggled env)]))
       (\<lambda>error. statements
          [emit (ConsoleError ''Error starting monitoring:''),
           showError ''Could not access camera. Please allow camera permissions and try again.''])"

text \<open>
  Modelled from the spec: the classes of the page's elements (the HTML is not among the
  sources). \<^verbatim>\<open>resetIndicators\<close> clears the three \<^verbatim>\<open>active-*\<close> classes and the status
  colour of every \<^verbatim>\<open>.indicator-card\<close> and sets every \<^verbatim>\<open>.confidence-fill\<close> to 0%; the four
  indicator groups are taken to be these cards and bars (section 4.4: on stop all four
  indicators go to inactive, 0% bar and default colour).
\<close>

definition resetCard :: "IndicatorCard \<Rightarrow> IndicatorCard" where
  "resetCard elem = elem \<lparr> active := False, statusColor := [], barWidth := Percent 0 \<rparr>"

definition resetIndicators :: "unit action" where
  "resetIndicators =
     modify (\<lambda>s. s \<lparr> indicators := (indicators s)
       \<lparr> fallIndicator := map_option resetCard (fallIndicator (indicators s)),
         aggressionIndicator := map_option resetCard (aggressionIndicator (indicators s)),
         riskyIndicator := map_option resetCard (riskyIndicator (indicators s)),
         emotionIndicator := map_option
           (\<lambda>elem. elem \<lparr> emotionColor := [], emotionBarWidth := Percent 0 \<rparr>)
           (emotionIndicator (indicators s)) \<rparr> \<rparr>)"

text \<open>
  \<^verbatim>\<open>
  stopMonitoring() {
      this.isMonitoring = false;
      if (this.stream) {
          this.stream.getTracks().forEach(track => track.stop());
          this.stream = null;
      }
      if (this.analysisInterval) {
          clearInterval(this.analysisInterval);
          this.analysisInterval = null;
      }
      this.overlay.classList.remove('hidden');
      this.startBtn.disabled = false;
      this.stopBtn.disabled = true;
      this.updateStatusBadge('System Ready', false);
      this.resetIndicators();
      fetch('/api/status/toggle', { method: 'POST' });
  }
  \<close>
  The last request is not awaited: it is sent, and its outcome is not looked at.
\<close>

definition stopMonitoring :: "unit action" where
  "stopMonitoring =
     statements
       [modify (\<lambda>s. s \<lparr> isMonitoring := False \<rparr>),
        (\<lambda>s. case stream s of
           None \<Rightarrow> (Inr (), s)
         | Some tracks \<Rightarrow>
             statements [emit (StopTracks tracks), modify (\<lambda>s. s \<lparr> stream := None \<rparr>)] s),
        (\<lambda>s. case analysisInterval s of
           None \<Rightarrow> (Inr (), s)
         | Some handle \<Rightarrow>
             statements [emit (ClearInterval handle),
               modify (\<lambda>s. s \<lparr> analysisInterval := None \<rparr>)] s),
        bind (element overlay) (\<lambda>_. modify (\<lambda>s. s \<lparr> overlay := Some False \<rparr>)),
        bind (element startBtn) (\<lambda>_. modify (\<lambda>s. s \<lparr> startBtn := Some False \<rparr>)),
        bind (element stopBtn) (\<lambda>_. modify (\<lambda>s. s \<lparr> stopBtn := Some True \<rparr>)),
        updateStatusBadge ''System Ready'' False,
        resetIndicators,
        emit (Fetch ''/api/status/toggle'' ''POST'' NoBody)]"

text \<open>
  \<^verbatim>\<open>
  async analyzeFrame() {
      if (!this.isMonitoring || !this.canvas) return;
      try {
          const tempCanvas = document.createElement('canvas');
          const scale = 0.5;
          tempCanvas.width = this.canvas.width * scale;
          tempCanvas.height = this.canvas.height * scale;
          const tempCtx = tempCanvas.getContext('2d');
          tempCtx.drawImage(this.video, 0, 0, tempCanvas.width, tempCanvas.height);
          const imageData = tempCanvas.toDataURL('image/jpeg', 0.7);
          const response = await fetch('/api/analyze', {
              method: 'POST', headers: { 'Content-Type': 'application/json' },
              body: JSON.stringify({ image: imageData })
          });
          if (response.ok) {
              const results = await response.json();
              this.updateIndicators(results);
          }
      } catch (error) {
          console.error('Error analyzing frame:', error);
      }
  }
  \<close>
  A response is its status and its body, \<open>None\<close> when the body does not parse as a
  result. A canvas width is an unsigned long: assigning a number truncates it. The body
  \<^verbatim>\<open>JSON.stringify({ image: imageData })\<close> is \<open>ImageBody imageData\<close>.
\<close>

datatype response = Response nat "AnalysisResult option"

definition response_ok :: "response \<Rightarrow> bool" where
  "response_ok r = (case r of Response status _ \<Rightarrow> 200 \<le> status \<and> status \<le> 299)"

definition response_json :: "response \<Rightarrow> AnalysisResult action" where
  "response_json r = (case r of Response _ None \<Rightarrow> throw SyntaxError
                               | Response _ (Some results) \<Rightarrow> return results)"

definition to_unsigned_long :: "real \<Rightarrow> nat" where
  "to_unsigned_long v = nat \<lfloor>v\<rfloor>"

definition snapshot :: "browser \<Rightarrow> VideoElement \<Rightarrow> canvas \<Rightarrow> canvas" where
  "snapshot br v cv =
     (let scale = 0.5;
          tempWidth = to_unsigned_long (real (canvas_width cv) * scale);
          tempHeight = to_unsigned_long (real (canvas_height cv) * scale)
      in \<lparr> canvas_width = tempWidth, canvas_height = tempHeight,
           bitmap = (\<lambda>x y. if x < tempWidth \<and> y < tempHeight
                           then drawImage br (currentFrame v) tempWidth tempHeight x y
                           else blank) \<rparr>)"

definition analyzeFrame :: "browser \<Rightarrow> (js_error + response) \<Rightarrow> unit action" where
  "analyzeFrame br settled s =
     (if \<not> isMonitoring s \<or> canvas s = None then (Inr (), s)
      else try_catch
        (bind (element canvas) (\<lambda>cv.
         bind (element video) (\<lambda>v.
           let tempCanvas = snapshot br v cv;
               imageData = toDataURL br tempCanvas
           in bind (await (Fetch ''/api/analyze'' ''POST'' (ImageBody imageData)) settled)
                (\<lambda>response.
                   if response_ok response
                   then bind (response_json response) (\<lambda>results.
                          modify (\<lambda>s. s \<lparr> indicators :=
                            updateIndicators (upperCase br) results (indicators s) \<rparr>))
                   else return ()))))
        (\<lambda>error. emit (ConsoleError ''Error analyzing frame:'')) s)"

text \<open>Concrete objects for the worked instances below.\<close>

definition testBrowser :: browser where
  "testBrowser = \<lparr> drawImage = (\<lambda>frame dw dh x y. bitmap frame (x * canvas_width frame div dw)
                                     (y * canvas_height frame div dh)),
                    toDataURL = (\<lambda>cv. ''data:image/jpeg;base64,''),
                    upperCase = keepCase \<rparr>"

definition idleApp :: app where
  "idleApp =
     \<lparr> video = Some \<lparr> srcObject = None, videoWidth = 0, videoHeight = 0,
         currentFrame = testFrame 0 0 \<rparr>,
       canvas = Some (testFrame 300 150),
       overlay = Some False, startBtn = Some False, stopBtn = Some True,
       isMonitoring = False, stream = None, analysisInterval = None,
       systemStatus = Some \<lparr> dotBackground = ''var(--secondary-color)'', labelText = ''System Ready'' \<rparr>,
       indicators = testPage, effects = [] \<rparr>"

definition activeApp :: app where
  "activeApp =
     idleApp \<lparr> video := Some \<lparr> srcObject = Some (MediaStream 1), videoWidth = 640,
         videoHeight = 480, currentFrame = testFrame 640 480 \<rparr>,
       canvas := Some (testFrame 640 480),
       overlay := Some True, startBtn := Some True, stopBtn := Some False,
       isMonitoring := True, stream := Some (MediaStream 1), analysisInterval := Some 7 \<rparr>"

definition granted :: start_env where
  "granted = \<lparr> userMedia = Inr (MediaStream 2), played = Inr (640, 480, testFrame 640 480),
     timer = 8, toggled = Inr () \<rparr>"

lemmas action_defs = return_def throw_def bind_def try_catch_def modify_def emit_def await_def
  element_def

section \<open>The analysis tick\<close>

text \<open>
  \<open>logged\<close> and \<open>updated\<close> name the two things a settled request decides in
  \<open>analyzeFrame\<close>: whether the \<^verbatim>\<open>catch\<close> block runs, and which result reaches
  \<open>updateIndicators\<close>. \<open>analyzeFrame_eq\<close> is the whole method in one equation.
\<close>

lemma snapshot_size:
  "canvas_width (snapshot br v cv) = canvas_width cv div 2"
  "canvas_height (snapshot br v cv) = canvas_height cv div 2"
proof -
  have "to_unsigned_long (real n * 0.5) = n div 2" for n
    using Math_floor_frac [of n 1 2] by (simp add: to_unsigned_long_def Math_floor_def)
  then show "canvas_width (snapshot br v cv) = canvas_width cv div 2"
    "canvas_height (snapshot br v cv) = canvas_height cv div 2"
    by (simp_all add: snapshot_def Let_def)
qed

lemma snapshot_bitmap: "snapshot br v (cv \<lparr> bitmap := b \<rparr>) = snapshot br v cv"
  by (simp add: snapshot_def)

definition logged :: "js_error + response \<Rightarrow> bool" where
  "logged settled =
     (case settled of
        Inl e \<Rightarrow> True
      | Inr (Response status body) \<Rightarrow> 200 \<le> status \<and> status \<le> 299 \<and> body = None)"

definition updated :: "js_error + response \<Rightarrow> AnalysisResult option" where
  "updated settled =
     (case settled of
        Inl e \<Rightarrow> None
      | Inr (Response status body) \<Rightarrow> if 200 \<le> status \<and> status \<le> 299 then body else None)"

lemma analyzeFrame_eq:
  assumes "isMonitoring s" "canvas s = Some cv" "video s = Some v"
  shows "analyzeFrame br settled s =
     (Inr (),
      s \<lparr> indicators := (case updated settled of None \<Rightarrow> indicators s
                          | Some results \<Rightarrow>
                              updateIndicators (upperCase br) results (indicators s)),
          effects := effects s @
            Fetch ''/api/analyze'' ''POST'' (ImageBody (toDataURL br (snapshot br v cv))) #
            (if logged settled then [ConsoleError ''Error analyzing frame:''] else []) \<rparr>)"
proof (cases settled)
  case (Inl e)
  have "logged settled" "updated settled = None"
    by (simp_all add: logged_def updated_def Inl)
  then show ?thesis
    using assms by (simp add: analyzeFrame_def action_defs Let_def Inl)
next
  case (Inr r)
  obtain status body where r: "r = Response status body" by (cases r)
  show ?thesis
  proof (cases "response_ok r")
    case False
    then have "\<not> logged settled" "updated settled = None"
      by (auto simp: logged_def updated_def response_ok_def Inr r)
    then show ?thesis
      using assms False by (simp add: analyzeFrame_def action_defs Let_def Inr)
  next
    case True
    show ?thesis
    proof (cases body)
      case None
      with True have "logged settled" "updated settled = None"
        by (auto simp: logged_def updated_def response_ok_def Inr r)
      moreover have "response_json r = throw SyntaxError"
        by (simp add: response_json_def r None)
      ultimately show ?thesis
        using assms True by (simp add: analyzeFrame_def action_defs Let_def Inr)
    next
      case (Some results)
      with True have "\<not> logged settled" "updated settled = Some results"
        by (auto simp: logged_def updated_def response_ok_def Inr r)
      moreover have "response_json r = return results"
        by (simp add: response_json_def r Some)
      ultimately show ?thesis
        using assms True by (simp add: analyzeFrame_def action_defs Let_def Inr)
    qed
  qed
qed

text \<open>
  Claim C2. On every analysis tick while monitoring is active, the payload posted to
  \<^verbatim>\<open>/api/analyze\<close> is the encoding of the raw video frame drawn at half the canvas width
  and half the canvas height; it does not depend on the pixels of the filtered display
  canvas: two runs that differ only in the bitmap of the canvas send the same payload.
\<close>

theorem analyzeFrame_payload_from_video:
  assumes "isMonitoring s" and "canvas s = Some cv" and "video s = Some v"
  shows "prefix (effects s @ [Fetch ''/api/analyze'' ''POST''
             (ImageBody (toDataURL br (snapshot br v cv)))])
           (effects (snd (analyzeFrame br settled s))) \<and>
         canvas_width (snapshot br v cv) = canvas_width cv div 2 \<and>
         canvas_height (snapshot br v cv) = canvas_height cv div 2 \<and>
         (\<forall>x y. x < canvas_width cv div 2 \<and> y < canvas_height cv div 2 \<longrightarrow>
            bitmap (snapshot br v cv) x y =
              drawImage br (currentFrame v) (canvas_width cv div 2) (canvas_height cv div 2) x y) \<and>
         (\<forall>b. effects (snd (analyzeFrame br settled (s \<lparr> canvas := Some (cv \<lparr> bitmap := b \<rparr>) \<rparr>))) =
            effects (snd (analyzeFrame br settled s)))"
proof -
  have w: "canvas_width (snapshot br v cv) = canvas_width cv div 2"
      "canvas_height (snapshot br v cv) = canvas_height cv div 2"
    by (rule snapshot_size)+
  have p: "bitmap (snapshot br v cv) x y =
      drawImage br (currentFrame v) (canvas_width cv div 2) (canvas_height cv div 2) x y"
    if "x < canvas_width cv div 2 \<and> y < canvas_height cv div 2" for x y
    using that w by (simp add: snapshot_def Let_def)
  have e: "effects (snd (analyzeFrame br settled s)) =
      effects s @ Fetch ''/api/analyze'' ''POST'' (ImageBody (toDataURL br (snapshot br v cv))) #
        (if logged settled then [ConsoleError ''Error analyzing frame:''] else [])"
    by (simp add: analyzeFrame_eq [OF assms])
  have "effects (snd (analyzeFrame br settled (s \<lparr> canvas := Some (cv \<lparr> bitmap := b \<rparr>) \<rparr>))) =
      effects (snd (analyzeFrame br settled s))" for b
    using assms
    by (simp add: analyzeFrame_eq [of "s \<lparr> canvas := Some (cv \<lparr> bitmap := b \<rparr>) \<rparr>"
          "cv \<lparr> bitmap := b \<rparr>" v] e snapshot_bitmap)
  with w p e show ?thesis by simp
qed

theorem analyzeFrame_payload_from_video_witness:
  "isMonitoring activeApp \<and> canvas activeApp = Some (testFrame 640 480) \<and>
   effects (snd (analyzeFrame testBrowser (Inl FetchFailed) activeApp)) =
     [Fetch ''/api/analyze'' ''POST'' (ImageBody ''data:image/jpeg;base64,''),
      ConsoleError ''Error analyzing frame:''] \<and>
   effects (snd (analyzeFrame testBrowser (Inl FetchFailed)
     (activeApp \<lparr> canvas := Some ((testFrame 640 480) \<lparr> bitmap := (\<lambda>x y. blank) \<rparr>) \<rparr>))) =
     effects (snd (analyzeFrame testBrowser (Inl FetchFailed) activeApp))"
proof -
  obtain v where a: "isMonitoring activeApp" "canvas activeApp = Some (testFrame 640 480)"
      "video activeApp = Some v"
    by (simp add: activeApp_def idleApp_def)
  have e: "effects (snd (analyzeFrame testBrowser (Inl FetchFailed) activeApp)) =
      [Fetch ''/api/analyze'' ''POST'' (ImageBody ''data:image/jpeg;base64,''),
       ConsoleError ''Error analyzing frame:'']"
    by (simp add: analyzeFrame_def activeApp_def idleApp_def action_defs Let_def testBrowser_def)
  from analyzeFrame_payload_from_video [OF a, of testBrowser "Inl FetchFailed"] a e
  show ?thesis by simp
qed

text \<open>
  Claim C9 says that on any transport error or non-2xx response the error is logged and
  the tick is skipped. A response with status 500 is skipped without a log entry: the
  tick's only effect is the request.
\<close>

theorem analyzeFrame_non2xx_not_logged:
  "isMonitoring activeApp \<and> \<not> response_ok (Response 500 None) \<and>
   effects activeApp = [] \<and>
   effects (snd (analyzeFrame testBrowser (Inr (Response 500 None)) activeApp)) =
     [Fetch ''/api/analyze'' ''POST'' (ImageBody ''data:image/jpeg;base64,'')]"
  by (simp add: analyzeFrame_def activeApp_def idleApp_def action_defs Let_def testBrowser_def
      response_ok_def)

lemma failure_cases:
  "logged (Inl e)" "updated (Inl e) = None"
  "\<not> response_ok (Response status body) \<Longrightarrow> \<not> logged (Inr (Response status body))"
  "\<not> response_ok (Response status body) \<Longrightarrow> updated (Inr (Response status body)) = None"
  "response_ok (Response status None) \<Longrightarrow> logged (Inr (Response status None))"
  "updated (Inr (Response status None)) = None"
  by (auto simp: logged_def updated_def response_ok_def)

text \<open>
  Claim C9, amended. On every analysis tick: a transport error is logged, and so is a 2xx
  response whose body does not parse; a non-2xx response is not logged. In all three
  cases the tick is skipped: the method returns normally, one request was sent (no
  retry), and nothing of the object changes but the log of effects, so the indicators,
  \<open>isMonitoring\<close> and the scheduled sampler are as before and the next tick runs from the
  same state.
\<close>

theorem analyzeFrame_failure_skips:
  assumes "isMonitoring s" and "canvas s = Some cv" and "video s = Some v"
  shows "(\<forall>e. analyzeFrame br (Inl e) s =
            (Inr (), s \<lparr> effects := effects s @
               [Fetch ''/api/analyze'' ''POST'' (ImageBody (toDataURL br (snapshot br v cv))),
                ConsoleError ''Error analyzing frame:''] \<rparr>)) \<and>
         (\<forall>status body. \<not> response_ok (Response status body) \<longrightarrow>
            analyzeFrame br (Inr (Response status body)) s =
            (Inr (), s \<lparr> effects := effects s @
               [Fetch ''/api/analyze'' ''POST''
                  (ImageBody (toDataURL br (snapshot br v cv)))] \<rparr>)) \<and>
         (\<forall>status. response_ok (Response status None) \<longrightarrow>
            analyzeFrame br (Inr (Response status None)) s =
            (Inr (), s \<lparr> effects := effects s @
               [Fetch ''/api/analyze'' ''POST'' (ImageBody (toDataURL br (snapshot br v cv))),
                ConsoleError ''Error analyzing frame:''] \<rparr>))"
proof (intro conjI allI impI)
  fix e show "analyzeFrame br (Inl e) s =
      (Inr (), s \<lparr> effects := effects s @
         [Fetch ''/api/analyze'' ''POST'' (ImageBody (toDataURL br (snapshot br v cv))),
          ConsoleError ''Error analyzing frame:''] \<rparr>)"
    by (simp add: analyzeFrame_eq [OF assms] failure_cases)
next
  fix status body assume "\<not> response_ok (Response status body)"
  then show "analyzeFrame br (Inr (Response status body)) s =
      (Inr (), s \<lparr> effects := effects s @
         [Fetch ''/api/analyze'' ''POST'' (ImageBody (toDataURL br (snapshot br v cv)))] \<rparr>)"
    by (simp add: analyzeFrame_eq [OF assms] failure_cases)
next
  fix status assume "response_ok (Response status None)"
  then show "analyzeFrame br (Inr (Response status None)) s =
      (Inr (), s \<lparr> effects := effects s @
         [Fetch ''/api/analyze'' ''POST'' (ImageBody (toDataURL br (snapshot br v cv))),
          ConsoleError ''Error analyzing frame:''] \<rparr>)"
    by (simp add: analyzeFrame_eq [OF assms] failure_cases)
qed

theorem analyzeFrame_failure_skips_witness:
  "isMonitoring activeApp \<and> \<not> response_ok (Response 503 None) \<and>
   analyzeFrame testBrowser (Inl FetchFailed) activeApp =
     (Inr (), activeApp \<lparr> effects :=
        [Fetch ''/api/analyze'' ''POST'' (ImageBody ''data:image/jpeg;base64,''),
         ConsoleError ''Error analyzing frame:''] \<rparr>) \<and>
   analyzeFrame testBrowser (Inr (Response 503 None)) activeApp =
     (Inr (), activeApp \<lparr> effects :=
        [Fetch ''/api/analyze'' ''POST'' (ImageBody ''data:image/jpeg;base64,'')] \<rparr>)"
proof -
  obtain v where a: "isMonitoring activeApp" "canvas activeApp = Some (testFrame 640 480)"
      "video activeApp = Some v"
    by (simp add: activeApp_def idleApp_def)
  have n: "\<not> response_ok (Response 503 None)" by (simp add: response_ok_def)
  have t: "toDataURL testBrowser c = ''data:image/jpeg;base64,''" for c
    by (simp add: testBrowser_def)
  have e: "effects activeApp = []" by (simp add: activeApp_def idleApp_def)
  from analyzeFrame_failure_skips [OF a, of testBrowser] a n show ?thesis
    by (simp add: t e)
qed

section \<open>Starting and stopping\<close>

text \<open>
  An action \<open>appends\<close> when it only adds to the log of effects. Every statement of
  \<open>startMonitoring\<close> does, so whatever follows the request for the capture device cannot
  remove it from the log.
\<close>

definition appends :: "'a action \<Rightarrow> bool" where
  "appends m \<longleftrightarrow> (\<forall>s. prefix (effects s) (effects (snd (m s))))"

lemma appendsI: "(\<And>s. prefix (effects s) (effects (snd (m s)))) \<Longrightarrow> appends m"
  by (simp add: appends_def)

lemma appendsD: "appends m \<Longrightarrow> prefix (effects s) (effects (snd (m s)))"
  by (simp add: appends_def)

lemma appends_return: "appends (return v)"
  by (simp add: appends_def return_def)

lemma appends_throw: "appends (throw e)"
  by (simp add: appends_def throw_def)

lemma appends_modify: "(\<And>s. effects (f s) = effects s) \<Longrightarrow> appends (modify f)"
  by (simp add: appends_def modify_def)

lemma appends_emit: "appends (emit e)"
  by (simp add: appends_def emit_def modify_def)

lemma appends_element: "appends (element get)"
  by (simp add: appends_def element_def split: option.splits)

lemma appends_bind:
  assumes "appends m" and "\<And>v. appends (f v)"
  shows "appends (bind m f)"
proof (rule appendsI)
  fix s
  show "prefix (effects s) (effects (snd (bind m f s)))"
  proof (cases "m s")
    case (Pair outcome s')
    have 1: "prefix (effects s) (effects s')"
      using appendsD [OF assms(1), of s] Pair by simp
    show ?thesis
    proof (cases outcome)
      case (Inl e)
      with Pair 1 show ?thesis by (simp add: bind_def)
    next
      case (Inr v)
      have "prefix (effects s') (effects (snd (f v s')))"
        by (rule appendsD [OF assms(2)])
      with 1 Pair Inr show ?thesis
        by (simp add: bind_def)
    qed
  qed
qed

lemma appends_try_catch:
  assumes "appends m" and "\<And>e. appends (handler e)"
  shows "appends (try_catch m handler)"
proof (rule appendsI)
  fix s
  show "prefix (effects s) (effects (snd (try_catch m handler s)))"
  proof (cases "m s")
    case (Pair outcome s')
    have 1: "prefix (effects s) (effects s')"
      using appendsD [OF assms(1), of s] Pair by simp
    show ?thesis
    proof (cases outcome)
      case (Inr v)
      with Pair 1 show ?thesis by (simp add: try_catch_def)
    next
      case (Inl e)
      have "prefix (effects s') (effects (snd (handler e s')))"
        by (rule appendsD [OF assms(2)])
      with 1 Pair Inl show ?thesis
        by (simp add: try_catch_def)
    qed
  qed
qed

lemma appends_statements: "(\<And>m. m \<in> set ms \<Longrightarrow> appends m) \<Longrightarrow> appends (statements ms)"
  by (induction ms) (simp_all add: appends_return appends_bind)

lemma appends_await: "appends (await e settled)"
  unfolding await_def
  by (intro appends_bind appends_emit) (simp add: appends_return appends_throw split: sum.splits)

lemma appends_updateStatusBadge: "appends (updateStatusBadge text isActive)"
  unfolding updateStatusBadge_def by (rule appends_modify) simp

lemma appends_renderFrame: "appends (renderFrame br)"
proof -
  have d: "appends (ctx_drawImage br)"
    unfolding ctx_drawImage_def
    by (intro appends_bind appends_element appends_modify) simp
  have f: "appends this_applyPrivacyFilter"
    unfolding this_applyPrivacyFilter_def
    by (intro appends_bind appends_element appendsI) (simp split: prod.splits)
  have "appends (statements [ctx_drawImage br, this_applyPrivacyFilter, emit RequestAnimationFrame])"
    by (rule appends_statements) (auto simp: d f appends_emit)
  then show ?thesis
    by (simp add: appends_def renderFrame_def)
qed

lemma startMonitoring_acquires:
  "prefix (effects s @ [GetUserMedia]) (effects (snd (startMonitoring br env s)))"
proof -
  let ?rest = "\<lambda>acquired. statements
          [modify (\<lambda>s. s \<lparr> stream := Some acquired \<rparr>),
           bind (element video) (\<lambda>v.
             modify (\<lambda>s. s \<lparr> video := Some (v \<lparr> srcObject := Some acquired \<rparr>) \<rparr>)),
           bind (await Play (played env)) (\<lambda>(vw, vh, frame).
             modify (\<lambda>s. s \<lparr> video := map_option
               (\<lambda>v. v \<lparr> videoWidth := vw, videoHeight := vh, currentFrame := frame \<rparr>)
               (video s) \<rparr>)),
           bind (element canvas) (\<lambda>cv.
           bind (element video) (\<lambda>v.
             modify (\<lambda>s. s \<lparr> canvas := Some
               \<lparr> canvas_width = or_nat (videoWidth v) 640,
                 canvas_height = or_nat (videoHeight v) 480,
                 bitmap = (\<lambda>x y. blank) \<rparr> \<rparr>))),
           modify (\<lambda>s. s \<lparr> isMonitoring := True \<rparr>),
           bind (element overlay) (\<lambda>_. modify (\<lambda>s. s \<lparr> overlay := Some True \<rparr>)),
           bind (element startBtn) (\<lambda>_. modify (\<lambda>s. s \<lparr> startBtn := Some True \<rparr>)),
           bind (element stopBtn) (\<lambda>_. modify (\<lambda>s. s \<lparr> stopBtn := Some False \<rparr>)),
           updateStatusBadge ''Monitoring Active'' True,
           renderFrame br,
           bind (emit (SetInterval 500)) (\<lambda>_.
             modify (\<lambda>s. s \<lparr> analysisInterval := Some (timer env) \<rparr>)),
           await (Fetch ''/api/status/toggle'' ''POST'' NoBody) (toggled env)]"
  let ?handler = "\<lambda>error::js_error. statements
          [emit (ConsoleError ''Error starting monitoring:''),
           showError ''Could not access camera. Please allow camera permissions and try again.'']"
  let ?settle = "\<lambda>_::unit. case userMedia env of Inl err \<Rightarrow> throw err | Inr v \<Rightarrow> return v"
  have r: "appends (?rest acquired)" for acquired
    by (rule appends_statements)
      (auto intro!: appends_bind appends_modify appends_element appends_await appends_emit
        appends_updateStatusBadge appends_renderFrame)
  have h: "appends (?handler e)" for e
    by (rule appends_statements) (auto simp: showError_def intro: appends_emit)
  have k: "appends (try_catch (bind (?settle ()) ?rest) ?handler)"
    by (intro appends_try_catch appends_bind r h)
      (simp add: appends_return appends_throw split: sum.splits)
  define s1 where "s1 = s \<lparr> effects := effects s @ [GetUserMedia] \<rparr>"
  have "startMonitoring br env s = try_catch (bind (?settle ()) ?rest) ?handler s1"
    unfolding startMonitoring_def s1_def
    by (simp add: try_catch_def bind_def await_def emit_def modify_def)
  moreover have "prefix (effects s1) (effects (snd (try_catch (bind (?settle ()) ?rest) ?handler s1)))"
    by (rule appendsD [OF k])
  ultimately show ?thesis by (simp add: s1_def)
qed

lemma stopMonitoring_eq:
  assumes "overlay s = Some o1" "startBtn s = Some b1" "stopBtn s = Some b2"
  shows "fst (stopMonitoring s) = Inr () \<and>
     \<not> isMonitoring (snd (stopMonitoring s)) \<and>
     stream (snd (stopMonitoring s)) = None \<and>
     analysisInterval (snd (stopMonitoring s)) = None \<and>
     startBtn (snd (stopMonitoring s)) = Some False \<and>
     stopBtn (snd (stopMonitoring s)) = Some True \<and>
     effects (snd (stopMonitoring s)) =
       effects s @ (case stream s of None \<Rightarrow> [] | Some tracks \<Rightarrow> [StopTracks tracks]) @
       (case analysisInterval s of None \<Rightarrow> [] | Some handle \<Rightarrow> [ClearInterval handle]) @
       [Fetch ''/api/status/toggle'' ''POST'' NoBody]"
  using assms
  by (cases "stream s"; cases "analysisInterval s")
    (simp_all add: stopMonitoring_def action_defs updateStatusBadge_def resetIndicators_def)

lemma startMonitoring_granted:
  assumes "userMedia env = Inr m" "played env = Inr (vw, vh, f)"
    "video s = Some v" "canvas s = Some cv" "overlay s = Some o1" "startBtn s = Some b1"
    "stopBtn s = Some b2"
  shows "isMonitoring (snd (startMonitoring br env s)) \<and>
     stream (snd (startMonitoring br env s)) = Some m \<and>
     startBtn (snd (startMonitoring br env s)) = Some True \<and>
     stopBtn (snd (startMonitoring br env s)) = Some False"
  using assms
  by (simp add: startMonitoring_def action_defs updateStatusBadge_def renderFrame_def
      ctx_drawImage_def this_applyPrivacyFilter_def showError_def
      split: prod.splits sum.splits)

text \<open>
  Claim C3 says that \<open>startMonitoring\<close> while active and \<open>stopMonitoring\<close> while idle are
  no-ops guarded by the session state. Neither method reads \<open>isMonitoring\<close> before it
  acts: started while active, the object asks for the capture device again and replaces
  its stream; stopped while idle, it sends the status-toggle notification.
\<close>

theorem duplicate_start_and_stop_act:
  "isMonitoring activeApp \<and> stream activeApp = Some (MediaStream 1) \<and>
   effects activeApp = [] \<and>
   effects (snd (startMonitoring testBrowser granted activeApp)) =
     [GetUserMedia, Play, RequestAnimationFrame, SetInterval 500,
      Fetch ''/api/status/toggle'' ''POST'' NoBody] \<and>
   stream (snd (startMonitoring testBrowser granted activeApp)) = Some (MediaStream 2) \<and>
   \<not> isMonitoring idleApp \<and> stream idleApp = None \<and> analysisInterval idleApp = None \<and>
   effects idleApp = [] \<and>
   effects (snd (stopMonitoring idleApp)) = [Fetch ''/api/status/toggle'' ''POST'' NoBody]"
proof -
  have a: "isMonitoring activeApp \<and> stream activeApp = Some (MediaStream 1) \<and>
      effects activeApp = []"
    by (simp add: activeApp_def idleApp_def)
  have i: "\<not> isMonitoring idleApp \<and> stream idleApp = None \<and> analysisInterval idleApp = None \<and>
      effects idleApp = []"
    by (simp add: idleApp_def)
  have s: "effects (snd (startMonitoring testBrowser granted activeApp)) =
      [GetUserMedia, Play, RequestAnimationFrame, SetInterval 500,
       Fetch ''/api/status/toggle'' ''POST'' NoBody] \<and>
      stream (snd (startMonitoring testBrowser granted activeApp)) = Some (MediaStream 2)"
    by (simp add: startMonitoring_def activeApp_def idleApp_def action_defs granted_def
        updateStatusBadge_def renderFrame_def ctx_drawImage_def this_applyPrivacyFilter_def
        applyPrivacyFilter_eq Let_def faceRegion_div or_nat_def showError_def split: prod.splits)
  have t: "effects (snd (stopMonitoring idleApp)) = [Fetch ''/api/status/toggle'' ''POST'' NoBody]"
    by (simp add: stopMonitoring_def idleApp_def action_defs updateStatusBadge_def
        resetIndicators_def)
  from a i s t show ?thesis by blast
qed

text \<open>
  Claim C3, amended. Neither method is guarded by the session state; duplicates are held
  off by the two buttons only. \<open>startMonitoring\<close> requests the capture device in every
  state. On a page with its elements, a start whose device request and playback succeed
  sets \<open>isMonitoring\<close>, keeps the new stream, disables the start button and enables the
  stop button; \<open>stopMonitoring\<close> returns with \<open>isMonitoring\<close> false, no stream and no
  sampler, enables the start button and disables the stop button, and a stop while idle
  changes none of \<open>isMonitoring\<close>, stream and sampler but still sends one status-toggle
  notification.
\<close>

theorem start_stop_guarded_by_buttons:
  "prefix (effects s @ [GetUserMedia]) (effects (snd (startMonitoring br env s))) \<and>
   (video s \<noteq> None \<and> canvas s \<noteq> None \<and> overlay s \<noteq> None \<and> startBtn s \<noteq> None \<and>
    stopBtn s \<noteq> None \<longrightarrow>
      (\<forall>m vw vh f. userMedia env = Inr m \<and> played env = Inr (vw, vh, f) \<longrightarrow>
         isMonitoring (snd (startMonitoring br env s)) \<and>
         stream (snd (startMonitoring br env s)) = Some m \<and>
         startBtn (snd (startMonitoring br env s)) = Some True \<and>
         stopBtn (snd (startMonitoring br env s)) = Some False) \<and>
      fst (stopMonitoring s) = Inr () \<and>
      \<not> isMonitoring (snd (stopMonitoring s)) \<and>
      stream (snd (stopMonitoring s)) = None \<and>
      analysisInterval (snd (stopMonitoring s)) = None \<and>
      startBtn (snd (stopMonitoring s)) = Some False \<and>
      stopBtn (snd (stopMonitoring s)) = Some True \<and>
      (\<not> isMonitoring s \<and> stream s = None \<and> analysisInterval s = None \<longrightarrow>
         effects (snd (stopMonitoring s)) =
           effects s @ [Fetch ''/api/status/toggle'' ''POST'' NoBody]))"
proof (intro conjI impI allI)
  show "prefix (effects s @ [GetUserMedia]) (effects (snd (startMonitoring br env s)))"
    by (rule startMonitoring_acquires)
next
  fix m vw vh f
  assume p: "video s \<noteq> None \<and> canvas s \<noteq> None \<and> overlay s \<noteq> None \<and> startBtn s \<noteq> None \<and>
      stopBtn s \<noteq> None"
    and e: "userMedia env = Inr m \<and> played env = Inr (vw, vh, f)"
  from p obtain v cv o1 b1 b2 where q: "video s = Some v" "canvas s = Some cv"
      "overlay s = Some o1" "startBtn s = Some b1" "stopBtn s = Some b2"
    by auto
  from e have e': "userMedia env = Inr m" "played env = Inr (vw, vh, f)" by simp_all
  note g = startMonitoring_granted [OF e' q, of br]
  from g show "isMonitoring (snd (startMonitoring br env s))" by simp
  from g show "stream (snd (startMonitoring br env s)) = Some m" by simp
  from g show "startBtn (snd (startMonitoring br env s)) = Some True" by simp
  from g show "stopBtn (snd (startMonitoring br env s)) = Some False" by simp
next
  assume p: "video s \<noteq> None \<and> canvas s \<noteq> None \<and> overlay s \<noteq> None \<and> startBtn s \<noteq> None \<and>
      stopBtn s \<noteq> None"
  then obtain o1 b1 b2 where q: "overlay s = Some o1" "startBtn s = Some b1" "stopBtn s = Some b2"
    by auto
  note t = stopMonitoring_eq [OF q]
  from t show "fst (stopMonitoring s) = Inr ()" by simp
  from t show "\<not> isMonitoring (snd (stopMonitoring s))" by simp
  from t show "stream (snd (stopMonitoring s)) = None" by simp
  from t show "analysisInterval (snd (stopMonitoring s)) = None" by simp
  from t show "startBtn (snd (stopMonitoring s)) = Some False" by simp
  from t show "stopBtn (snd (stopMonitoring s)) = Some True" by simp
  assume "\<not> isMonitoring s \<and> stream s = None \<and> analysisInterval s = None"
  with t show "effects (snd (stopMonitoring s)) =
      effects s @ [Fetch ''/api/status/toggle'' ''POST'' NoBody]"
    by simp
qed

theorem start_stop_guarded_by_buttons_witness:
  "video idleApp \<noteq> None \<and> canvas idleApp \<noteq> None \<and> overlay idleApp \<noteq> None \<and>
   startBtn idleApp \<noteq> None \<and> stopBtn idleApp \<noteq> None \<and>
   userMedia granted = Inr (MediaStream 2) \<and> played granted = Inr (640, 480, testFrame 640 480) \<and>
   \<not> isMonitoring idleApp \<and> stream idleApp = None \<and> analysisInterval idleApp = None \<and>
   prefix [GetUserMedia] (effects (snd (startMonitoring testBrowser granted idleApp))) \<and>
   isMonitoring (snd (startMonitoring testBrowser granted idleApp)) \<and>
   stream (snd (startMonitoring testBrowser granted idleApp)) = Some (MediaStream 2) \<and>
   startBtn (snd (startMonitoring testBrowser granted idleApp)) = Some True \<and>
   stopBtn (snd (startMonitoring testBrowser granted idleApp)) = Some False \<and>
   startBtn (snd (stopMonitoring idleApp)) = Some False \<and>
   stopBtn (snd (stopMonitoring idleApp)) = Some True \<and>
   effects (snd (stopMonitoring idleApp)) = [Fetch ''/api/status/toggle'' ''POST'' NoBody]"
proof -
  have p: "video idleApp \<noteq> None \<and> canvas idleApp \<noteq> None \<and> overlay idleApp \<noteq> None \<and>
      startBtn idleApp \<noteq> None \<and> stopBtn idleApp \<noteq> None"
    by (simp add: idleApp_def)
  have e: "userMedia granted = Inr (MediaStream 2) \<and>
      played granted = Inr (640, 480, testFrame 640 480)"
    by (simp add: granted_def)
  have i: "\<not> isMonitoring idleApp \<and> stream idleApp = None \<and> analysisInterval idleApp = None"
    by (simp add: idleApp_def)
  have n: "effects idleApp = []" by (simp add: idleApp_def)
  note t = start_stop_guarded_by_buttons [of idleApp testBrowser granted]
  from t have 1: "prefix [GetUserMedia] (effects (snd (startMonitoring testBrowser granted idleApp)))"
    by (simp add: n)
  from t p e have 2: "isMonitoring (snd (startMonitoring testBrowser granted idleApp)) \<and>
      stream (snd (startMonitoring testBrowser granted idleApp)) = Some (MediaStream 2) \<and>
      startBtn (snd (startMonitoring testBrowser granted idleApp)) = Some True \<and>
      stopBtn (snd (startMonitoring testBrowser granted idleApp)) = Some False"
    by blast
  from t p i have 3: "startBtn (snd (stopMonitoring idleApp)) = Some False \<and>
      stopBtn (snd (stopMonitoring idleApp)) = Some True \<and>
      effects (snd (stopMonitoring idleApp)) =
        effects idleApp @ [Fetch ''/api/status/toggle'' ''POST'' NoBody]"
    by blast
  from p e i 1 2 3 show ?thesis by (simp add: n)
qed

end
